theory Spec2Isabelle
  imports Complex_Main "HOL-Library.AList"
begin

section \<open>Python values used by both scrapers\<close>

text \<open>
  The repository holds two scripts: \<^verbatim>\<open>leakixscraper.py\<close> (class \<^verbatim>\<open>WebsiteScraper\<close>) and
  \<^verbatim>\<open>scraper.py\<close> (class \<^verbatim>\<open>TwitterScraper\<close>). Exceptions are values: a computation that
  can raise returns \<open>py_error + 'a\<close>, with \<open>Inl\<close> for the exception.
\<close>

datatype py_error = KeyError string | ValueError string

text \<open>
  A Python \<^verbatim>\<open>str\<close> is a \<open>string\<close>, a list of characters with the code points below 256
  (Latin-1); text with other code points is not covered. \<^verbatim>\<open>str.strip()\<close> without argument
  removes leading and trailing whitespace, the characters for which \<^verbatim>\<open>str.isspace\<close> holds:
  below 256 these are tab, line feed, vertical tab, form feed, carriage return, the four
  separators 28 to 31, space, next line (133) and no-break space (160).
\<close>

definition isspace :: "char \<Rightarrow> bool" where
  "isspace c = (of_char c \<in> {9, 10, 11, 12, 13, 28, 29, 30, 31, 32, 133, 160 :: nat})"

definition strip :: "string \<Rightarrow> string" where
  "strip s = rev (dropWhile isspace (rev (dropWhile isspace s)))"

text \<open>
  A Python \<^verbatim>\<open>dict\<close> with string keys is an association list in insertion order;
  \<^verbatim>\<open>d[k] = v\<close> is \<open>AList.update k v d\<close> (an existing key keeps its place and takes the
  new value, a new key goes to the end) and \<^verbatim>\<open>d[k]\<close> raises \<^verbatim>\<open>KeyError\<close> on a missing key.
\<close>

type_synonym ('k, 'v) dict = "('k \<times> 'v) list"

definition getitem :: "(string, 'v) dict \<Rightarrow> string \<Rightarrow> py_error + 'v" where
  "getitem d k = (case map_of d k of None \<Rightarrow> Inl (KeyError k) | Some v \<Rightarrow> Inr v)"

section \<open>Python floats\<close>

text \<open>
  A Python \<^verbatim>\<open>float\<close> is an IEEE 754 double, here the real number it stands for. The
  result of an addition or a multiplication is the exact result rounded to the nearest
  double, a tie going to the double whose last bit is even. A double has 53 significant
  bits, so those of magnitude in \<open>[2 ^ e, 2 ^ (e + 1))\<close> (of \<open>exponent\<close> \<open>e\<close>) are the
  multiples of \<open>2 ^ (e - 52)\<close> (their \<open>ulp\<close>). This is the rounding of the normal range (magnitudes from \<open>2 ^ -1022\<close>
  to below \<open>2 ^ 1024\<close>), where all the sums and products of the two scrapers lie.
\<close>

definition round_half_even :: "real \<Rightarrow> int" where
  "round_half_even y =
     (if y - of_int \<lfloor>y\<rfloor> < 1 / 2 then \<lfloor>y\<rfloor>
      else if 1 / 2 < y - of_int \<lfloor>y\<rfloor> then \<lfloor>y\<rfloor> + 1
      else if even \<lfloor>y\<rfloor> then \<lfloor>y\<rfloor> else \<lfloor>y\<rfloor> + 1)"

definition exponent :: "real \<Rightarrow> int" where
  "exponent x = \<lfloor>log 2 \<bar>x\<bar>\<rfloor>"

definition ulp :: "real \<Rightarrow> real" where
  "ulp x = 2 powi (exponent x - 52)"

definition round_to_double :: "real \<Rightarrow> real" where
  "round_to_double x =
     (if x = 0 then 0
      else sgn x * (of_int (round_half_even (\<bar>x\<bar> / ulp x)) * ulp x))"

definition float_add :: "real \<Rightarrow> real \<Rightarrow> real" where
  "float_add x y = round_to_double (x + y)"

definition float_mul :: "real \<Rightarrow> real \<Rightarrow> real" where
  "float_mul x y = round_to_double (x * y)"

section \<open>leakixscraper.py: the parsed page\<close>

text \<open>
  A parsed page is seen by the scraper only through CSS selectors. An element is modelled
  by what each selector the code applies to it returns: \<^verbatim>\<open>select_one\<close> gives \<open>None\<close> or
  the first matching tag (of which the code reads \<^verbatim>\<open>.text\<close>, or the attribute \<^verbatim>\<open>href\<close>),
  \<^verbatim>\<open>select\<close> gives the list of matching tags. A tag is truthy whatever its contents, so
  \<^verbatim>\<open>if card.select_one(..)\<close> tests for \<open>None\<close> only.
\<close>

text \<open>A \<^verbatim>\<open>div.detail-item\<close>: the text of its \<^verbatim>\<open>span.detail-key\<close> and \<^verbatim>\<open>span.detail-value\<close>.\<close>

record detail_item =
  key_elem :: "string option"
  value_elem :: "string option"

text \<open>
  A \<^verbatim>\<open>div.search-result\<close>: the text of \<^verbatim>\<open>h4.result-title\<close> and of
  \<^verbatim>\<open>div.result-description\<close>, the attributes of its first \<^verbatim>\<open>a\<close>, its detail items.
\<close>

record result_item =
  h4_result_title :: "string option"
  div_result_description :: "string option"
  a_attrs :: "(string, string) dict option"
  detail_items :: "detail_item list"

text \<open>
  A \<^verbatim>\<open>div.card\<close> of the homepage: the text of \<^verbatim>\<open>h3.card-title\<close>, \<^verbatim>\<open>p.card-text\<close> and
  \<^verbatim>\<open>span.date\<close>, and the attributes of its first \<^verbatim>\<open>a\<close>.
\<close>

record card =
  h3_card_title :: "string option"
  p_card_text :: "string option"
  card_a_attrs :: "(string, string) dict option"
  span_date :: "string option"

record soup =
  div_card :: "card list"
  div_search_result :: "result_item list"

text \<open>The dictionaries the scraper emits, one field per key.\<close>

record service_data =
  sd_title :: string
  sd_description :: string
  sd_url :: "string option"
  sd_timestamp :: string

record result_data =
  rd_title :: string
  rd_description :: string
  rd_url :: "string option"
  rd_details :: "(string, string) dict"

section \<open>leakixscraper.py: extraction\<close>

text \<open>
  \<^verbatim>\<open>_extract_details\<close>: the loop over the detail items, with the dictionary built so far.
  Nothing in the loop body can raise, so its \<^verbatim>\<open>try\<close> has no error branch.
\<close>

fun extract_details_loop ::
  "detail_item list \<Rightarrow> (string, string) dict \<Rightarrow> (string, string) dict" where
  "extract_details_loop [] details = details"
| "extract_details_loop (detail # rest) details =
     extract_details_loop rest
       (case (key_elem detail, value_elem detail) of
          (Some k, Some v) \<Rightarrow> AList.update (strip k) (strip v) details
        | _ \<Rightarrow> details)"

definition extract_details :: "result_item \<Rightarrow> (string, string) dict" where
  "extract_details element = extract_details_loop (detail_items element) []"

text \<open>
  \<^verbatim>\<open>X.text.strip() if X else "N/A"\<close> and
  \<^verbatim>\<open>urljoin(self.base_url, a['href']) if a else None\<close>. \<^verbatim>\<open>a['href']\<close> raises \<^verbatim>\<open>KeyError\<close>
  when the tag has no such attribute. \<^verbatim>\<open>urljoin\<close> is the library's and is a parameter
  \<open>join\<close>; it returns the joined URL or raises \<^verbatim>\<open>ValueError\<close> (on the href \<^verbatim>\<open>http://[\<close>,
  for one).
\<close>

definition text_or_na :: "string option \<Rightarrow> string" where
  "text_or_na e = (case e of Some t \<Rightarrow> strip t | None \<Rightarrow> ''N/A'')"

type_synonym urljoin_call = "string \<Rightarrow> string \<Rightarrow> py_error + string"

definition joined_href ::
  "urljoin_call \<Rightarrow> string \<Rightarrow> (string, string) dict option \<Rightarrow> py_error + string option" where
  "joined_href join base_url a =
     (case a of
        None \<Rightarrow> Inr None
      | Some attrs \<Rightarrow>
          (case getitem attrs ''href'' of
             Inl e \<Rightarrow> Inl e
           | Inr h \<Rightarrow>
               (case join base_url h of
                  Inl e \<Rightarrow> Inl e
                | Inr u \<Rightarrow> Inr (Some u))))"

text \<open>The dictionary literal built for one search result (the body of the \<^verbatim>\<open>try\<close>).\<close>

definition result_data_of ::
  "urljoin_call \<Rightarrow> string \<Rightarrow> result_item \<Rightarrow> py_error + result_data" where
  "result_data_of join base_url item =
     (case joined_href join base_url (a_attrs item) of
        Inl e \<Rightarrow> Inl e
      | Inr u \<Rightarrow>
          Inr \<lparr>rd_title = text_or_na (h4_result_title item),
               rd_description = text_or_na (div_result_description item),
               rd_url = u,
               rd_details = extract_details item\<rparr>)"

text \<open>The dictionary literal built for one homepage card.\<close>

definition service_data_of ::
  "urljoin_call \<Rightarrow> string \<Rightarrow> card \<Rightarrow> py_error + service_data" where
  "service_data_of join base_url c =
     (case joined_href join base_url (card_a_attrs c) of
        Inl e \<Rightarrow> Inl e
      | Inr u \<Rightarrow>
          Inr \<lparr>sd_title = text_or_na (h3_card_title c),
               sd_description = text_or_na (p_card_text c),
               sd_url = u,
               sd_timestamp = text_or_na (span_date c)\<rparr>)"

text \<open>
  The loops \<^verbatim>\<open>for item in result_items\<close> and \<^verbatim>\<open>for card in service_cards\<close>: a record is
  appended, or the exception is caught (and printed) and the loop goes on.
\<close>

fun result_items_loop ::
  "urljoin_call \<Rightarrow> string \<Rightarrow> result_item list \<Rightarrow> result_data list \<Rightarrow> result_data list" where
  "result_items_loop join base_url [] all_results = all_results"
| "result_items_loop join base_url (item # rest) all_results =
     result_items_loop join base_url rest
       (case result_data_of join base_url item of
          Inr result_data \<Rightarrow> all_results @ [result_data]
        | Inl e \<Rightarrow> all_results)"

fun service_cards_loop ::
  "urljoin_call \<Rightarrow> string \<Rightarrow> card list \<Rightarrow> service_data list \<Rightarrow> service_data list" where
  "service_cards_loop join base_url [] results = results"
| "service_cards_loop join base_url (c # rest) results =
     service_cards_loop join base_url rest
       (case service_data_of join base_url c of
          Inr service_data \<Rightarrow> results @ [service_data]
        | Inl e \<Rightarrow> results)"

section \<open>leakixscraper.py: the outside world\<close>

text \<open>
  What the script cannot decide itself is a parameter: \<^verbatim>\<open>urljoin\<close> of \<^verbatim>\<open>urllib\<close>, the
  answer of the network to the \<open>n\<close>-th request of the run (by URL), and the value of the
  \<open>n\<close>-th call of \<^verbatim>\<open>random.random()\<close>. A response carries its status code and its body as
  \<^verbatim>\<open>BeautifulSoup\<close> parses it; \<^verbatim>\<open>session.get\<close> may raise \<^verbatim>\<open>requests.RequestException\<close>.
  Of \<^verbatim>\<open>urljoin\<close> the world gives the URL it returns and, for the arguments on which it
  raises instead, the exception; \<open>py_urljoin\<close> is the call as the element loops make it,
  inside their \<^verbatim>\<open>try\<close>.
\<close>

datatype http_result = Response int soup | RequestException

record world =
  urljoin :: "string \<Rightarrow> string \<Rightarrow> string"
  urljoin_error :: "string \<Rightarrow> string \<Rightarrow> py_error option"
  net :: "nat \<Rightarrow> string \<Rightarrow> http_result"
  rnd :: "nat \<Rightarrow> real"

definition py_urljoin :: "world \<Rightarrow> urljoin_call" where
  "py_urljoin w base url =
     (case urljoin_error w base url of Some e \<Rightarrow> Inl e | None \<Rightarrow> Inr (urljoin w base url))"

text \<open>
  The effects of a run, in the order they happen: each \<^verbatim>\<open>session.get\<close> with its URL and the
  attempt number of the loop it is in, and each \<^verbatim>\<open>time.sleep\<close> with its duration. The state
  counts the requests and the random draws made so far. Console output is not recorded.
\<close>

datatype event = Fetch string nat | Sleep real

record io =
  requests :: nat
  draws :: nat
  log :: "event list"

definition io0 :: io where
  "io0 = \<lparr>requests = 0, draws = 0, log = []\<rparr>"

definition request_sent :: "string \<Rightarrow> nat \<Rightarrow> io \<Rightarrow> io" where
  "request_sent full_url attempt s =
     s\<lparr>requests := requests s + 1, log := log s @ [Fetch full_url attempt]\<rparr>"

text \<open>
  \<^verbatim>\<open>random.uniform(a, b)\<close> is \<^verbatim>\<open>a + (b - a) * random()\<close>, with \<open>r\<close> the value of \<^verbatim>\<open>random()\<close>:
  the integers \<open>a\<close> and \<open>b - a\<close> become floats as they are, the product and the sum are
  rounded.
\<close>

definition uniform :: "real \<Rightarrow> real \<Rightarrow> real \<Rightarrow> real" where
  "uniform a b r = float_add a (float_mul (b - a) r)"

text \<open>
  \<^verbatim>\<open>sleep_time = 2 ** attempt + random.uniform(0, 1)\<close> of \<^verbatim>\<open>get_page\<close>: the integer
  \<^verbatim>\<open>2 ** attempt\<close> becomes a float, exactly up to attempt 1023, and the sum is rounded. From
  attempt 1024 on Python raises \<^verbatim>\<open>OverflowError\<close> at that conversion; the value given
  here is that of the attempts up to 1023, and \<^verbatim>\<open>get_page\<close> is called with its default
  \<^verbatim>\<open>retry_count = 3\<close> only, which sleeps after attempts 0 and 1.
\<close>

definition backoff_sleep_time :: "nat \<Rightarrow> real \<Rightarrow> real" where
  "backoff_sleep_time attempt r = float_add (2 ^ attempt) (uniform 0 1 r)"

text \<open>Drawing the random number and sleeping, for the retry and between two pages.\<close>

definition backoff_sleep :: "world \<Rightarrow> nat \<Rightarrow> io \<Rightarrow> io" where
  "backoff_sleep w attempt s =
     s\<lparr>draws := draws s + 1,
       log := log s @ [Sleep (backoff_sleep_time attempt (rnd w (draws s)))]\<rparr>"

definition politeness_sleep :: "world \<Rightarrow> io \<Rightarrow> io" where
  "politeness_sleep w s =
     s\<lparr>draws := draws s + 1, log := log s @ [Sleep (uniform 2 5 (rnd w (draws s)))]\<rparr>"

section \<open>leakixscraper.py: get\_page\<close>

text \<open>The body of the \<^verbatim>\<open>try\<close>: the parsed page on status 200, nothing otherwise.\<close>

definition page_of :: "http_result \<Rightarrow> soup option" where
  "page_of response =
     (case response of
        Response status_code body \<Rightarrow> if status_code = 200 then Some body else None
      | RequestException \<Rightarrow> None)"

text \<open>
  \<^verbatim>\<open>for attempt in range(retry_count)\<close>, over the attempts still to make. After a failed
  attempt that is not the last one, the loop sleeps; after the last one it returns \<open>None\<close>.
\<close>

fun get_page_loop :: "world \<Rightarrow> string \<Rightarrow> int \<Rightarrow> nat list \<Rightarrow> io \<Rightarrow> soup option \<times> io" where
  "get_page_loop w full_url retry_count [] s = (None, s)"
| "get_page_loop w full_url retry_count (attempt # rest) s =
     (case page_of (net w (requests s) full_url) of
        Some body \<Rightarrow> (Some body, request_sent full_url attempt s)
      | None \<Rightarrow>
          get_page_loop w full_url retry_count rest
            (if int attempt < retry_count - 1
             then backoff_sleep w attempt (request_sent full_url attempt s)
             else request_sent full_url attempt s))"

text \<open>
  \<^verbatim>\<open>full_url = urljoin(self.base_url, url)\<close> is computed before the loop, outside any
  \<^verbatim>\<open>try\<close>. Its second argument is a path the scraper builds, \<^verbatim>\<open>/\<close> or \<^verbatim>\<open>/search?q=..\<close>:
  it names no host, and \<^verbatim>\<open>urljoin\<close> raises on a malformed host only. The base URL is
  taken to be well formed, so that this call returns.
\<close>

definition get_page :: "world \<Rightarrow> string \<Rightarrow> string \<Rightarrow> int \<Rightarrow> io \<Rightarrow> soup option \<times> io" where
  "get_page w base_url url retry_count s =
     get_page_loop w (urljoin w base_url url) retry_count [0..<nat retry_count] s"

section \<open>leakixscraper.py: the scraping runs\<close>

text \<open>\<^verbatim>\<open>str(page)\<close> and the f-string \<^verbatim>\<open>f"/search?q={query}&page={page}"\<close>.\<close>

fun str_nat :: "nat \<Rightarrow> string" where
  "str_nat n =
     (if n < 10 then [char_of (48 + n)]
      else str_nat (n div 10) @ [char_of (48 + n mod 10)])"

definition str_int :: "int \<Rightarrow> string" where
  "str_int i = (if i < 0 then CHR ''-'' # str_nat (nat (- i)) else str_nat (nat i))"

definition search_url :: "string \<Rightarrow> int \<Rightarrow> string" where
  "search_url query page = ''/search?q='' @ query @ ''&page='' @ str_int page"

definition scrape_leakix_homepage :: "world \<Rightarrow> string \<Rightarrow> io \<Rightarrow> service_data list \<times> io" where
  "scrape_leakix_homepage w base_url s =
     (case get_page w base_url ''/'' 3 s of
        (None, s1) \<Rightarrow> ([], s1)
      | (Some soup, s1) \<Rightarrow> (service_cards_loop (py_urljoin w) base_url (div_card soup) [], s1))"

text \<open>
  \<^verbatim>\<open>for page in range(1, pages + 1)\<close>, over the pages still to pull, with the records
  collected so far. Both \<^verbatim>\<open>break\<close>s return what has been collected.
\<close>

fun pages_loop ::
  "world \<Rightarrow> string \<Rightarrow> string \<Rightarrow> int \<Rightarrow> int list \<Rightarrow> result_data list \<Rightarrow> io
     \<Rightarrow> result_data list \<times> io" where
  "pages_loop w base_url query pages [] all_results s = (all_results, s)"
| "pages_loop w base_url query pages (page # rest) all_results s =
     (case get_page w base_url (search_url query page) 3 s of
        (None, s1) \<Rightarrow> (all_results, s1)
      | (Some soup, s1) \<Rightarrow>
          if div_search_result soup = [] then (all_results, s1)
          else pages_loop w base_url query pages rest
                 (result_items_loop (py_urljoin w) base_url (div_search_result soup) all_results)
                 (if page < pages then politeness_sleep w s1 else s1))"

definition scrape_search_results ::
  "world \<Rightarrow> string \<Rightarrow> string \<Rightarrow> int \<Rightarrow> io \<Rightarrow> result_data list \<times> io" where
  "scrape_search_results w base_url query pages s =
     pages_loop w base_url query pages [1..pages] [] s"

section \<open>scraper.py: the Twitter client\<close>

text \<open>
  What \<^verbatim>\<open>search_recent_tweets\<close> returns: tweets with the requested fields
  (\<^verbatim>\<open>public_metrics\<close> is a dictionary), and the users of the \<^verbatim>\<open>author_id\<close> expansion when
  \<^verbatim>\<open>'users' in response.includes\<close>. A date is a number of seconds.
\<close>

type_synonym datetime = int

record user =
  user_id :: int
  user_name :: string
  user_username :: string
  user_location :: "string option"
  user_verified :: bool

record tweet =
  tweet_id :: int
  tweet_text :: string
  tweet_created_at :: datetime
  tweet_public_metrics :: "(string, int) dict"
  tweet_lang :: string
  tweet_author_id :: int

record response =
  response_data :: "tweet list option"
  includes_users :: "user list option"

record search_request =
  req_query :: string
  req_max_results :: int
  req_start_time :: "datetime option"
  req_end_time :: "datetime option"

text \<open>
  A call returns a response or raises; \<^verbatim>\<open>tweepy.TooManyRequests\<close> is caught before the
  other \<^verbatim>\<open>tweepy.TweepyException\<close>s. The client is a parameter: its answer to the \<open>n\<close>-th
  call of the run.
\<close>

datatype api_result = Api_response response | TooManyRequests | TweepyException

type_synonym client = "nat \<Rightarrow> search_request \<Rightarrow> api_result"

datatype tw_event = Search search_request | Wait int

record tw_io =
  calls :: nat
  tw_log :: "tw_event list"

definition tw_io0 :: tw_io where
  "tw_io0 = \<lparr>calls = 0, tw_log = []\<rparr>"

definition called :: "search_request \<Rightarrow> tw_io \<Rightarrow> tw_io" where
  "called req s = s\<lparr>calls := calls s + 1, tw_log := tw_log s @ [Search req]\<rparr>"

definition time_sleep :: "int \<Rightarrow> tw_io \<Rightarrow> tw_io" where
  "time_sleep d s = s\<lparr>tw_log := tw_log s @ [Wait d]\<rparr>"

text \<open>The dictionary built for one tweet; the author's keys are set together or not at all.\<close>

record tweet_data =
  td_id :: int
  td_text :: string
  td_created_at :: datetime
  td_retweet_count :: int
  td_reply_count :: int
  td_like_count :: int
  td_quote_count :: int
  td_lang :: string
  td_author :: "user option"

section \<open>scraper.py: search\_tweets\<close>

text \<open>\<^verbatim>\<open>{user.id: user for user in response.includes['users']}\<close>, or the empty dictionary.\<close>

definition users_of :: "response \<Rightarrow> (int, user) dict" where
  "users_of r =
     (case includes_users r of
        Some us \<Rightarrow> fold (\<lambda>u d. AList.update (user_id u) u d) us []
      | None \<Rightarrow> [])"

text \<open>
  The four counts are read with \<^verbatim>\<open>tweet.public_metrics[..]\<close>, which raises \<^verbatim>\<open>KeyError\<close> on
  a missing key; no \<^verbatim>\<open>except\<close> clause of \<^verbatim>\<open>search_tweets\<close> catches it.
\<close>

definition tweet_data_of :: "(int, user) dict \<Rightarrow> tweet \<Rightarrow> py_error + tweet_data" where
  "tweet_data_of users t =
     (case getitem (tweet_public_metrics t) ''retweet_count'' of
        Inl e \<Rightarrow> Inl e
      | Inr retweets \<Rightarrow>
     (case getitem (tweet_public_metrics t) ''reply_count'' of
        Inl e \<Rightarrow> Inl e
      | Inr replies \<Rightarrow>
     (case getitem (tweet_public_metrics t) ''like_count'' of
        Inl e \<Rightarrow> Inl e
      | Inr likes \<Rightarrow>
     (case getitem (tweet_public_metrics t) ''quote_count'' of
        Inl e \<Rightarrow> Inl e
      | Inr quotes \<Rightarrow>
          Inr \<lparr>td_id = tweet_id t, td_text = tweet_text t,
               td_created_at = tweet_created_at t,
               td_retweet_count = retweets, td_reply_count = replies,
               td_like_count = likes, td_quote_count = quotes,
               td_lang = tweet_lang t,
               td_author = map_of users (tweet_author_id t)\<rparr>))))"

text \<open>\<^verbatim>\<open>for tweet in response.data\<close>: an exception leaves the loop and the function.\<close>

fun tweets_loop ::
  "(int, user) dict \<Rightarrow> tweet list \<Rightarrow> tweet_data list \<Rightarrow> py_error + tweet_data list" where
  "tweets_loop users [] tweets = Inr tweets"
| "tweets_loop users (t # rest) tweets =
     (case tweet_data_of users t of
        Inl e \<Rightarrow> Inl e
      | Inr tweet_data \<Rightarrow> tweets_loop users rest (tweets @ [tweet_data]))"

definition max_retries :: int where
  "max_retries = 5"

text \<open>
  \<^verbatim>\<open>while retry_count <= max_retries\<close>, with the loop's variables as arguments. Every path
  but the rate-limit retry ends in \<^verbatim>\<open>break\<close> and returns \<^verbatim>\<open>tweets\<close>.
\<close>

function search_loop ::
  "client \<Rightarrow> search_request \<Rightarrow> int \<Rightarrow> int \<Rightarrow> tweet_data list \<Rightarrow> tw_io
     \<Rightarrow> py_error + tweet_data list \<times> tw_io" where
  "search_loop client req retry_count retry_delay tweets s =
     (if retry_count \<le> max_retries then
        (case client (calls s) req of
           Api_response r \<Rightarrow>
             (case response_data r of
                None \<Rightarrow> Inr (tweets, called req s)
              | Some ts \<Rightarrow>
                  if ts = [] then Inr (tweets, called req s)
                  else (case tweets_loop (users_of r) ts tweets of
                          Inl e \<Rightarrow> Inl e
                        | Inr tweets' \<Rightarrow> Inr (tweets', called req s)))
         | TooManyRequests \<Rightarrow>
             if retry_count < max_retries
             then search_loop client req (retry_count + 1) (retry_delay * 2) tweets
                    (time_sleep retry_delay (called req s))
             else Inr (tweets, called req s)
         | TweepyException \<Rightarrow> Inr (tweets, called req s))
      else Inr (tweets, s))"
  by pat_completeness auto
termination
  by (relation "measure (\<lambda>(client, req, retry_count, retry_delay, tweets, s).
                  nat (max_retries + 1 - retry_count))") auto

declare search_loop.simps [simp del]

definition search_tweets ::
  "client \<Rightarrow> string \<Rightarrow> int \<Rightarrow> datetime option \<Rightarrow> datetime option \<Rightarrow> tw_io
     \<Rightarrow> py_error + tweet_data list \<times> tw_io" where
  "search_tweets client query max_results start_time end_time s =
     search_loop client
       \<lparr>req_query = query, req_max_results = min max_results 100,
        req_start_time = start_time, req_end_time = end_time\<rparr>
       0 60 [] s"

section \<open>Saving the records\<close>

text \<open>
  The files by name, and the lines printed. How pandas and \<^verbatim>\<open>json\<close> render the records
  is a parameter. Both classes have the two methods, with their own messages.
\<close>

record fs =
  files :: "string \<rightharpoonup> string"
  stdout :: "string list"

definition WebsiteScraper_save_to_csv ::
  "('a list \<Rightarrow> string) \<Rightarrow> 'a list \<Rightarrow> string \<Rightarrow> fs \<Rightarrow> fs" where
  "WebsiteScraper_save_to_csv to_csv data filename st =
     (if data = [] then st\<lparr>stdout := stdout st @ [''No data to save to '' @ filename]\<rparr>
      else st\<lparr>files := (files st)(filename \<mapsto> to_csv data),
              stdout := stdout st @
                [''Saved '' @ str_int (int (length data)) @ '' items to '' @ filename]\<rparr>)"

definition WebsiteScraper_save_to_json ::
  "('a list \<Rightarrow> string) \<Rightarrow> 'a list \<Rightarrow> string \<Rightarrow> fs \<Rightarrow> fs" where
  "WebsiteScraper_save_to_json json_dump data filename st =
     (if data = [] then st\<lparr>stdout := stdout st @ [''No data to save to '' @ filename]\<rparr>
      else st\<lparr>files := (files st)(filename \<mapsto> json_dump data),
              stdout := stdout st @
                [''Saved '' @ str_int (int (length data)) @ '' items to '' @ filename]\<rparr>)"

definition TwitterScraper_save_to_csv ::
  "('a list \<Rightarrow> string) \<Rightarrow> 'a list \<Rightarrow> string \<Rightarrow> fs \<Rightarrow> fs" where
  "TwitterScraper_save_to_csv to_csv tweets filename st =
     (if tweets = [] then st\<lparr>stdout := stdout st @ [''No tweets to save to '' @ filename]\<rparr>
      else st\<lparr>files := (files st)(filename \<mapsto> to_csv tweets),
              stdout := stdout st @
                [''Saved '' @ str_int (int (length tweets)) @ '' tweets to '' @ filename]\<rparr>)"

definition TwitterScraper_save_to_json ::
  "('a list \<Rightarrow> string) \<Rightarrow> 'a list \<Rightarrow> string \<Rightarrow> fs \<Rightarrow> fs" where
  "TwitterScraper_save_to_json json_dump tweets filename st =
     (if tweets = [] then st\<lparr>stdout := stdout st @ [''No tweets to save to '' @ filename]\<rparr>
      else st\<lparr>files := (files st)(filename \<mapsto> json_dump tweets),
              stdout := stdout st @
                [''Saved '' @ str_int (int (length tweets)) @ '' tweets to '' @ filename]\<rparr>)"

section \<open>Specification predicates\<close>

text \<open>
  Building the record of an element raises: its link has no \<^verbatim>\<open>href\<close> attribute, or
  \<^verbatim>\<open>urljoin\<close> raises on the one it has. And the URL the record carries otherwise.
\<close>

definition href_raises :: "urljoin_call \<Rightarrow> string \<Rightarrow> (string, string) dict option \<Rightarrow> bool" where
  "href_raises join base_url a =
     (case a of
        None \<Rightarrow> False
      | Some attrs \<Rightarrow>
          (case map_of attrs ''href'' of
             None \<Rightarrow> True
           | Some h \<Rightarrow> (case join base_url h of Inl e \<Rightarrow> True | Inr u \<Rightarrow> False)))"

definition href_url ::
  "urljoin_call \<Rightarrow> string \<Rightarrow> (string, string) dict option \<Rightarrow> string option" where
  "href_url join base_url a =
     (case a of
        None \<Rightarrow> None
      | Some attrs \<Rightarrow>
          (case map_of attrs ''href'' of
             None \<Rightarrow> None
           | Some h \<Rightarrow> (case join base_url h of Inl e \<Rightarrow> None | Inr u \<Rightarrow> Some u)))"

text \<open>
  A detail item has both elements and they strip to the key \<open>k\<close> and the value \<open>v\<close>; a detail
  item has both elements and its key strips to \<open>k\<close>.
\<close>

definition sets_entry :: "string \<Rightarrow> string \<Rightarrow> detail_item \<Rightarrow> bool" where
  "sets_entry k v d =
     (\<exists>ke ve. key_elem d = Some ke \<and> value_elem d = Some ve \<and> strip ke = k \<and> strip ve = v)"

definition sets_key :: "string \<Rightarrow> detail_item \<Rightarrow> bool" where
  "sets_key k d = (\<exists>ke. key_elem d = Some ke \<and> strip ke = k \<and> value_elem d \<noteq> None)"

text \<open>
  The politeness delay in a log of events. An event is a politeness delay when it is a sleep
  of 2 to 5 seconds; a log is polite when every first attempt at a page (attempt 0 of a
  \<^verbatim>\<open>get_page\<close>), but the very first event of the log, comes right after one. The first
  argument is the event before the log, if any.
\<close>

definition is_politeness :: "event \<Rightarrow> bool" where
  "is_politeness e = (case e of Sleep d \<Rightarrow> 2 \<le> d \<and> d \<le> 5 | Fetch u attempt \<Rightarrow> False)"

fun polite_after :: "event option \<Rightarrow> event list \<Rightarrow> bool" where
  "polite_after prev [] = True"
| "polite_after prev (Sleep d # es) = polite_after (Some (Sleep d)) es"
| "polite_after prev (Fetch u attempt # es) =
     ((attempt = 0 \<longrightarrow> (case prev of None \<Rightarrow> True | Some p \<Rightarrow> is_politeness p))
      \<and> polite_after (Some (Fetch u attempt)) es)"

text \<open>The state in which the loop over the pages starts a page.\<close>

definition loop_head :: "io \<Rightarrow> bool" where
  "loop_head s = (polite_after None (log s) \<and> (log s = [] \<or> is_politeness (last (log s))))"

text \<open>
  The state of \<^verbatim>\<open>search_tweets\<close> after \<open>k\<close> rounds of a call followed by a wait, the first
  wait of \<open>delay\<close> seconds and each next one twice as long.
\<close>

definition retried :: "nat \<Rightarrow> int \<Rightarrow> search_request \<Rightarrow> tw_io \<Rightarrow> tw_io" where
  "retried k delay req s =
     s\<lparr>calls := calls s + k,
       tw_log := tw_log s @ concat (map (\<lambda>i. [Search req, Wait (delay * 2 ^ i)]) [0..<k])\<rparr>"

text \<open>Values for the examples: a search result, the record made of it, two pages, a world.\<close>

definition example_item :: result_item where
  "example_item =
     \<lparr>h4_result_title = Some ''Open database'', div_result_description = None,
      a_attrs = Some [(''href'', ''/host/1'')], detail_items = []\<rparr>"

definition example_record :: result_data where
  "example_record =
     \<lparr>rd_title = ''Open database'', rd_description = ''N/A'',
      rd_url = Some ''https://leakix.net/host/1'', rd_details = []\<rparr>"

definition example_page :: soup where
  "example_page = \<lparr>div_card = [], div_search_result = [example_item]\<rparr>"

definition empty_page :: soup where
  "empty_page = \<lparr>div_card = [], div_search_result = []\<rparr>"

definition example_world :: "(nat \<Rightarrow> string \<Rightarrow> http_result) \<Rightarrow> world" where
  "example_world answers =
     \<lparr>urljoin = (\<lambda>b u. b @ u), urljoin_error = (\<lambda>b u. None), net = answers,
      rnd = (\<lambda>n. 1 / 4)\<rparr>"

definition example_request :: search_request where
  "example_request =
     \<lparr>req_query = ''leak'', req_max_results = 100, req_start_time = None, req_end_time = None\<rparr>"


section \<open>Properties: rounding\<close>

lemma round_half_even_of_int: "round_half_even (of_int m) = m"
  by (simp add: round_half_even_def)

lemma round_half_even_ge: "of_int m \<le> y \<Longrightarrow> m \<le> round_half_even y"
proof -
  assume "of_int m \<le> y"
  then have "m \<le> \<lfloor>y\<rfloor>" by (simp add: le_floor_iff)
  then show ?thesis by (simp add: round_half_even_def)
qed

lemma round_half_even_le: "y \<le> of_int m \<Longrightarrow> round_half_even y \<le> m"
proof (cases "y = of_int m")
  case True
  then show ?thesis by (simp add: round_half_even_of_int)
next
  case False
  assume "y \<le> of_int m"
  with False have "y < of_int m" by simp
  then have "\<lfloor>y\<rfloor> < m" by (simp add: floor_less_iff)
  then show ?thesis by (auto simp: round_half_even_def)
qed

lemma round_half_even_near:
  fixes n :: int and y :: real
  assumes "of_int n \<le> y" and "y \<le> of_int n + 1 / 2" and "even n"
  shows "round_half_even y = n"
proof -
  have "\<lfloor>y\<rfloor> = n" using assms(1,2) by (intro floor_unique) simp_all
  with assms show ?thesis by (simp add: round_half_even_def)
qed

lemma exponent_iff:
  "0 < x \<Longrightarrow> (exponent x = k) = (2 powi k \<le> x \<and> x < 2 powi (k + 1))"
proof -
  assume x: "0 < x"
  have "(2::real) powr real_of_int k = 2 powi k"
    and "(2::real) powr real_of_int (k + 1) = 2 powi (k + 1)"
    by (rule powr_real_of_int'; simp)+
  with floor_log_eq_powr_iff [OF x, of 2 k] x show ?thesis by (simp add: exponent_def)
qed

lemma exponent_bounds:
  assumes "0 < x"
  shows "2 powi exponent x \<le> x \<and> x < 2 powi (exponent x + 1)"
  using exponent_iff [OF assms, of "exponent x"] by simp

lemma round_to_double_pos:
  "0 < x \<Longrightarrow> round_to_double x = of_int (round_half_even (x / ulp x)) * ulp x"
  by (simp add: round_to_double_def)

lemma ulp_small:
  assumes "0 < x" and "x < 2 ^ 53"
  shows "\<exists>k. ulp x = 1 / 2 ^ k"
proof -
  let ?e = "exponent x"
  have "2 powi ?e \<le> x" using exponent_bounds [OF assms(1)] by simp
  with assms(2) have "(2::real) powi ?e < 2 powi 53" by simp
  then have "?e < 53" by (rule power_int_le_imp_less_exp [rotated]) simp_all
  then have "?e - 52 = - int (nat (52 - ?e))" by simp
  then have "ulp x = 2 powi (- int (nat (52 - ?e)))" using assms(1) by (simp add: ulp_def)
  then have "ulp x = 1 / 2 ^ nat (52 - ?e)"
    by (simp only: power_int_minus_divide power_int_of_nat)
  then show ?thesis ..
qed

text \<open>Rounding a number below \<open>2 ^ 53\<close> does not cross an integer.\<close>

lemma round_to_double_ge_int:
  assumes "0 \<le> x" and "x < 2 ^ 53" and "of_int m \<le> x"
  shows "of_int m \<le> round_to_double x"
proof (cases "x = 0")
  case True
  with assms(3) show ?thesis by (simp add: round_to_double_def)
next
  case False
  with assms(1) have pos: "0 < x" by simp
  obtain k where k: "ulp x = 1 / 2 ^ k" using ulp_small [OF pos assms(2)] by blast
  have "of_int (m * 2 ^ k) \<le> x / ulp x" using assms(3) by (simp add: k)
  then have "m * 2 ^ k \<le> round_half_even (x / ulp x)" by (rule round_half_even_ge)
  then have "of_int (m * 2 ^ k) \<le> (of_int (round_half_even (x / ulp x)) :: real)"
    by (simp only: of_int_le_iff)
  then have "of_int m \<le> of_int (round_half_even (x / ulp x)) * ulp x"
    by (simp add: k field_simps)
  then show ?thesis by (simp add: round_to_double_pos pos)
qed

lemma round_to_double_le_int:
  assumes "0 \<le> x" and "x < 2 ^ 53" and "x \<le> of_int m"
  shows "round_to_double x \<le> of_int m"
proof (cases "x = 0")
  case True
  with assms(3) show ?thesis by (simp add: round_to_double_def)
next
  case False
  with assms(1) have pos: "0 < x" by simp
  obtain k where k: "ulp x = 1 / 2 ^ k" using ulp_small [OF pos assms(2)] by blast
  have "x / ulp x \<le> of_int (m * 2 ^ k)" using assms(3) by (simp add: k)
  then have "round_half_even (x / ulp x) \<le> m * 2 ^ k" by (rule round_half_even_le)
  then have "(of_int (round_half_even (x / ulp x)) :: real) \<le> of_int (m * 2 ^ k)"
    by (simp only: of_int_le_iff)
  then have "of_int (round_half_even (x / ulp x)) * ulp x \<le> of_int m"
    by (simp add: k field_simps)
  then show ?thesis by (simp add: round_to_double_pos pos)
qed

lemma round_to_double_between:
  assumes "real_of_int m \<le> x" and "x \<le> real_of_int n" and "0 \<le> m" and "n < 2 ^ 53"
  shows "real_of_int m \<le> round_to_double x \<and> round_to_double x \<le> real_of_int n"
proof -
  have "0 \<le> x" using assms(1,3) by simp
  moreover have "x < 2 ^ 53"
  proof -
    have "real_of_int n < real_of_int (2 ^ 53)" using assms(4) by (simp only: of_int_less_iff)
    with assms(2) show ?thesis by simp
  qed
  ultimately show ?thesis
    using assms(1,2) by (simp add: round_to_double_ge_int round_to_double_le_int)
qed

lemma exponent_of_nat:
  assumes "2 ^ a \<le> x" and "x < 2 ^ (a + 1)"
  shows "exponent x = int a"
proof -
  have pos: "0 < x" using assms(1) by (rule less_le_trans [rotated]) simp
  have p1: "(2::real) powi int a = 2 ^ a" by (rule power_int_of_nat)
  have "int a + 1 = int (a + 1)" by simp
  then have p2: "(2::real) powi (int a + 1) = 2 ^ (a + 1)" by (simp only: power_int_of_nat)
  show ?thesis unfolding exponent_iff [OF pos] p1 p2 using assms by blast
qed

lemma ulp_of_nat:
  assumes "52 \<le> a" and "2 ^ a \<le> x" and "x < 2 ^ (a + 1)"
  shows "ulp x = 2 ^ (a - 52)"
proof -
  have pos: "0 < x" using assms(2) by (rule less_le_trans [rotated]) simp
  have "int a - 52 = int (a - 52)" using assms(1) by simp
  then have "(2::real) powi (int a - 52) = 2 ^ (a - 52)" by (simp only: power_int_of_nat)
  with exponent_of_nat [OF assms(2,3)] pos show ?thesis by (simp add: ulp_def)
qed

text \<open>From \<open>2 ^ 53\<close> on the doubles are 2 or more apart: adding at most 1 is lost.\<close>

lemma round_to_double_high:
  assumes "53 \<le> a" and "2 ^ a \<le> x" and "x \<le> 2 ^ a + 1"
  shows "round_to_double x = 2 ^ a"
proof -
  define n :: int where "n = 2 ^ 52"
  define q :: real where "q = 2 ^ (a - 52)"
  have even: "even n" by (simp add: n_def)
  have q: "2 \<le> q"
    unfolding q_def using assms(1) power_increasing [of 1 "a - 52" "2::real"] by simp
  have split: "(2::real) ^ a = of_int n * q"
  proof -
    have "a = 52 + (a - 52)" using assms(1) by simp
    then have "(2::real) ^ a = 2 ^ 52 * 2 ^ (a - 52)" by (subst power_add [symmetric]) simp
    then show ?thesis by (simp add: n_def q_def)
  qed
  have pos: "0 < x" using assms(2) by (rule less_le_trans [rotated]) simp
  have "(1::real) < 2 ^ a" using assms(1) by simp
  with assms(3) have lt: "x < 2 ^ (a + 1)" by simp
  have u: "ulp x = q" unfolding q_def using assms(1) by (intro ulp_of_nat assms(2) lt) simp
  have lo: "of_int n * q \<le> x" and hi: "x \<le> of_int n * q + 1"
    using assms(2,3) by (simp_all only: split)
  have y1: "of_int n \<le> x / q" using lo q by (simp add: field_simps)
  have "x / q \<le> (of_int n * q + 1) / q" using hi q by (simp add: divide_right_mono)
  also have "\<dots> = of_int n + 1 / q" using q by (simp add: field_simps)
  also have "\<dots> \<le> of_int n + 1 / 2" using q by (simp add: field_simps)
  finally have y2: "x / q \<le> of_int n + 1 / 2" .
  have "round_half_even (x / q) = n" using y1 y2 even by (rule round_half_even_near)
  then have "round_to_double x = of_int n * q" using pos by (simp add: round_to_double_pos u)
  then show ?thesis by (simp only: split)
qed

text \<open>A multiple of the spacing of its binade is a double: rounding leaves it as it is.\<close>

lemma round_to_double_exact:
  assumes "0 < x" and "2 powi e \<le> x" and "x < 2 powi (e + 1)"
    and "x = of_int m * 2 powi (e - 52)"
  shows "round_to_double x = x"
proof -
  have e: "exponent x = e" using assms(2,3) by (simp add: exponent_iff [OF assms(1)])
  then have u: "ulp x = 2 powi (e - 52)" using assms(1) by (simp add: ulp_def)
  have "x / ulp x = of_int m" by (subst (1) assms(4)) (simp add: u)
  then have "of_int (round_half_even (x / ulp x)) * ulp x = of_int m * 2 powi (e - 52)"
    by (simp add: round_half_even_of_int u)
  then show ?thesis unfolding round_to_double_pos [OF assms(1)] assms(4) [symmetric] .
qed

lemma round_to_double_quarter: "round_to_double (1 / 4) = 1 / 4"
  by (rule round_to_double_exact [where e = "-2" and m = "2 ^ 52"])
    (simp_all add: power_int_minus_divide)

lemma round_to_double_3_quarters: "round_to_double (3 / 4) = 3 / 4"
  by (rule round_to_double_exact [where e = "-1" and m = "3 * 2 ^ 51"])
    (simp_all add: power_int_minus_divide)

lemma round_to_double_5_quarters: "round_to_double (5 / 4) = 5 / 4"
  by (rule round_to_double_exact [where e = 0 and m = "5 * 2 ^ 50"])
    (simp_all add: power_int_minus_divide)

lemma round_to_double_9_quarters: "round_to_double (9 / 4) = 9 / 4"
  by (rule round_to_double_exact [where e = 1 and m = "9 * 2 ^ 49"])
    (simp_all add: power_int_minus_divide)

lemma round_to_double_11_quarters: "round_to_double (11 / 4) = 11 / 4"
  by (rule round_to_double_exact [where e = 1 and m = "11 * 2 ^ 49"])
    (simp_all add: power_int_minus_divide)

lemma round_to_double_1024: "round_to_double 1024 = 1024"
  by (rule round_to_double_exact [where e = 10 and m = "2 ^ 52"])
    (simp_all add: power_int_minus_divide)

text \<open>The largest value of \<^verbatim>\<open>random.random()\<close>, \<open>1 - 2 ^ -53\<close>, is a double.\<close>

lemma round_to_double_largest_random:
  "round_to_double (1 - 1 / 2 ^ 53) = 1 - 1 / 2 ^ 53"
  by (rule round_to_double_exact [where e = "-1" and m = "2 ^ 53 - 1"])
    (simp_all add: power_int_minus_divide)

text \<open>\<open>2 - 2 ^ -53\<close> lies half way between the doubles \<open>2 - 2 ^ -52\<close> and \<open>2\<close>: it rounds to 2.\<close>

lemma round_to_double_tie: "round_to_double (2 - 1 / 2 ^ 53) = 2"
proof -
  let ?x = "2 - 1 / 2 ^ 53 :: real"
  have pos: "0 < ?x" by simp
  have "1 \<le> ?x \<and> ?x < 2" by simp
  then have "exponent ?x = 0" unfolding exponent_iff [OF pos] by simp
  then have u: "ulp ?x = 1 / 2 ^ 52" by (simp only: ulp_def) (simp add: power_int_minus_divide)
  have y: "?x / (1 / 2 ^ 52) = 2 ^ 53 - 1 / 2" by simp
  have "round_half_even (2 ^ 53 - 1 / 2) = 2 ^ 53" by (simp add: round_half_even_def)
  then have "of_int (round_half_even (?x / ulp ?x)) * ulp ?x = 2" unfolding u y by simp
  then show ?thesis unfolding round_to_double_pos [OF pos] .
qed

text \<open>The two intervals of \<^verbatim>\<open>random.uniform\<close> in the scraper, both closed.\<close>

lemma uniform_0_1: "uniform 0 1 r = round_to_double (round_to_double r)"
  by (simp add: uniform_def float_add_def float_mul_def)

lemma uniform_0_1_bounds:
  assumes "0 \<le> r" and "r \<le> 1"
  shows "0 \<le> uniform 0 1 r \<and> uniform 0 1 r \<le> 1"
proof -
  have "real_of_int 0 \<le> round_to_double r \<and> round_to_double r \<le> real_of_int 1"
    using assms by (intro round_to_double_between) simp_all
  then have "real_of_int 0 \<le> round_to_double (round_to_double r)
             \<and> round_to_double (round_to_double r) \<le> real_of_int 1"
    by (intro round_to_double_between) simp_all
  then show ?thesis by (simp add: uniform_0_1)
qed

lemma uniform_2_5_bounds:
  assumes "0 \<le> r" and "r \<le> 1"
  shows "2 \<le> uniform 2 5 r \<and> uniform 2 5 r \<le> 5"
proof -
  have "real_of_int 0 \<le> 3 * r" and "3 * r \<le> real_of_int 3" using assms by simp_all
  then have "real_of_int 0 \<le> round_to_double (3 * r)
             \<and> round_to_double (3 * r) \<le> real_of_int 3"
    by (intro round_to_double_between) simp_all
  then have "real_of_int 2 \<le> 2 + round_to_double (3 * r)"
    and "2 + round_to_double (3 * r) \<le> real_of_int 5"
    by simp_all
  then have "real_of_int 2 \<le> round_to_double (2 + round_to_double (3 * r))
             \<and> round_to_double (2 + round_to_double (3 * r)) \<le> real_of_int 5"
    by (intro round_to_double_between) simp_all
  then show ?thesis by (simp add: uniform_def float_add_def float_mul_def)
qed

lemma uniform_quarter: "uniform 0 1 (1 / 4) = 1 / 4" "uniform 2 5 (1 / 4) = 11 / 4"
  by (simp_all add: uniform_def float_add_def float_mul_def round_to_double_quarter
      round_to_double_3_quarters round_to_double_11_quarters)

lemma backoff_sleep_time_quarter:
  "backoff_sleep_time 0 (1 / 4) = 5 / 4" "backoff_sleep_time 1 (1 / 4) = 9 / 4"
  "backoff_sleep_time (Suc 0) (1 / 4) = 9 / 4"
  by (simp_all add: backoff_sleep_time_def uniform_quarter float_add_def
      round_to_double_5_quarters round_to_double_9_quarters)

lemma backoff_sleep_time_closed:
  assumes "0 \<le> r" and "r \<le> 1"
  shows "2 ^ attempt \<le> backoff_sleep_time attempt r
         \<and> backoff_sleep_time attempt r \<le> 2 ^ attempt + 1"
proof -
  define u where "u = uniform 0 1 r"
  have u: "0 \<le> u" "u \<le> 1" using uniform_0_1_bounds [OF assms] by (simp_all add: u_def)
  have b: "backoff_sleep_time attempt r = round_to_double (2 ^ attempt + u)"
    by (simp add: backoff_sleep_time_def float_add_def u_def)
  show ?thesis
  proof (cases "53 \<le> attempt")
    case True
    have "round_to_double (2 ^ attempt + u) = 2 ^ attempt"
      using True u by (intro round_to_double_high) simp_all
    with b show ?thesis by simp
  next
    case False
    then have "attempt \<le> 52" by simp
    then have "(2::int) ^ attempt \<le> 2 ^ 52" by (intro power_increasing) simp_all
    then have small: "(2::int) ^ attempt + 1 < 2 ^ 53" by simp
    have "real_of_int (2 ^ attempt) \<le> 2 ^ attempt + u"
      and "2 ^ attempt + u \<le> real_of_int (2 ^ attempt + 1)"
      using u by simp_all
    then have "real_of_int (2 ^ attempt) \<le> round_to_double (2 ^ attempt + u)
               \<and> round_to_double (2 ^ attempt + u) \<le> real_of_int (2 ^ attempt + 1)"
      using small by (intro round_to_double_between) simp_all
    with b show ?thesis by simp
  qed
qed

section \<open>Properties: the backoff delay\<close>

text \<open>
  C2 (as stated, refuted). The claim puts the delay in the half-open interval
  \<open>[2 ^ a, 2 ^ a + 1)\<close> and under a cap \<open>max_delay\<close>. \<^verbatim>\<open>get_page\<close> computes
  \<^verbatim>\<open>2 ** attempt + random.uniform(0, 1)\<close> in floats and nothing else. With \<^verbatim>\<open>random()\<close> at its
  largest value \<open>1 - 2 ^ -53\<close>, the delay after attempt 0 is \<open>2 = 2 ^ 0 + 1\<close>, the upper end
  the claim excludes. And the code has no \<open>max_delay\<close>: the delay doubles with each attempt,
  1024 seconds after attempt 10 with the jitter at 0.
\<close>

theorem backoff_sleep_time_upper_end_counterexample:
  "(0::real) \<le> 1 - 1 / 2 ^ 53 \<and> (1 - 1 / 2 ^ 53 :: real) < 1
   \<and> backoff_sleep_time 0 (1 - 1 / 2 ^ 53) = 2 ^ 0 + 1
   \<and> backoff_sleep_time 10 0 = 1024"
proof -
  have "uniform 0 1 (1 - 1 / 2 ^ 53) = 1 - 1 / 2 ^ 53"
    by (simp only: uniform_0_1 round_to_double_largest_random)
  moreover have "2 ^ 0 + (1 - 1 / 2 ^ 53) = (2 - 1 / 2 ^ 53 :: real)" by simp
  ultimately have "backoff_sleep_time 0 (1 - 1 / 2 ^ 53) = round_to_double (2 - 1 / 2 ^ 53)"
    by (simp only: backoff_sleep_time_def float_add_def)
  then have a: "backoff_sleep_time 0 (1 - 1 / 2 ^ 53) = 2 ^ 0 + 1"
    by (simp only: round_to_double_tie) simp
  have "uniform 0 1 0 = 0"
    by (simp add: uniform_0_1 round_to_double_def)
  then have b: "backoff_sleep_time 10 0 = 1024"
    by (simp add: backoff_sleep_time_def float_add_def round_to_double_1024)
  from a b show ?thesis by simp
qed

text \<open>
  C2 (amended). With \<open>r\<close> the value of \<^verbatim>\<open>random.random()\<close>, in \<open>[0, 1)\<close>, the delay before the
  retry after attempt \<open>a\<close>, for \<open>a\<close> up to 1023 (beyond, the float conversion of \<^verbatim>\<open>2 ** a\<close>
  raises), lies in the closed interval \<open>[2 ^ a, 2 ^ a + 1]\<close>. There is no cap.
\<close>

theorem backoff_sleep_time_bounds:
  assumes "attempt \<le> 1023" and "0 \<le> r" and "r < 1"
  shows "2 ^ attempt \<le> backoff_sleep_time attempt r
         \<and> backoff_sleep_time attempt r \<le> 2 ^ attempt + 1"
  using assms(2,3) by (intro backoff_sleep_time_closed) simp_all

theorem backoff_sleep_time_bounds_witness:
  "(1::nat) \<le> 1023 \<and> (0::real) \<le> 1 / 4 \<and> (1 / 4 :: real) < 1
   \<and> 2 \<le> backoff_sleep_time 1 (1 / 4) \<and> backoff_sleep_time 1 (1 / 4) \<le> 3"
  using backoff_sleep_time_bounds [of 1 "1 / 4"] by simp

section \<open>Properties: saving\<close>

text \<open>
  C9. With an empty list of records, \<^verbatim>\<open>save_to_csv\<close> and \<^verbatim>\<open>save_to_json\<close> of both classes
  return after the \<^verbatim>\<open>print\<close>: no file is created or written, under \<open>filename\<close> or any
  other name.
\<close>

theorem save_empty_leaves_files:
  "files (WebsiteScraper_save_to_csv to_csv [] filename st) = files st
   \<and> files (WebsiteScraper_save_to_json json_dump [] filename st) = files st
   \<and> files (TwitterScraper_save_to_csv to_csv' [] filename st) = files st
   \<and> files (TwitterScraper_save_to_json json_dump' [] filename st) = files st"
  by (simp add: WebsiteScraper_save_to_csv_def WebsiteScraper_save_to_json_def
      TwitterScraper_save_to_csv_def TwitterScraper_save_to_json_def)

section \<open>Properties: extraction\<close>

lemma joined_href_raises:
  "href_raises join b a \<Longrightarrow> \<exists>e. joined_href join b a = Inl e"
  by (auto simp: joined_href_def href_raises_def getitem_def split: option.splits sum.splits)

lemma joined_href_returns:
  "\<not> href_raises join b a \<Longrightarrow> joined_href join b a = Inr (href_url join b a)"
  by (auto simp: joined_href_def href_raises_def href_url_def getitem_def
      split: option.splits sum.splits)

lemma result_items_step:
  "(case result_data_of join b i of Inr d \<Rightarrow> acc @ [d] | Inl e \<Rightarrow> acc) =
     (if href_raises join b (a_attrs i) then acc
      else acc @ [\<lparr>rd_title = text_or_na (h4_result_title i),
                    rd_description = text_or_na (div_result_description i),
                    rd_url = href_url join b (a_attrs i),
                    rd_details = extract_details i\<rparr>])"
proof (cases "href_raises join b (a_attrs i)")
  case True
  then obtain e where "joined_href join b (a_attrs i) = Inl e"
    using joined_href_raises by blast
  with True show ?thesis by (simp add: result_data_of_def)
next
  case False
  then show ?thesis by (simp add: result_data_of_def joined_href_returns)
qed

lemma service_cards_step:
  "(case service_data_of join b c of Inr d \<Rightarrow> acc @ [d] | Inl e \<Rightarrow> acc) =
     (if href_raises join b (card_a_attrs c) then acc
      else acc @ [\<lparr>sd_title = text_or_na (h3_card_title c),
                    sd_description = text_or_na (p_card_text c),
                    sd_url = href_url join b (card_a_attrs c),
                    sd_timestamp = text_or_na (span_date c)\<rparr>])"
proof (cases "href_raises join b (card_a_attrs c)")
  case True
  then obtain e where "joined_href join b (card_a_attrs c) = Inl e"
    using joined_href_raises by blast
  with True show ?thesis by (simp add: service_data_of_def)
next
  case False
  then show ?thesis by (simp add: service_data_of_def joined_href_returns)
qed

lemma result_items_loop_acc:
  "result_items_loop join b items acc =
     acc @ map (\<lambda>i. \<lparr>rd_title = text_or_na (h4_result_title i),
                     rd_description = text_or_na (div_result_description i),
                     rd_url = href_url join b (a_attrs i),
                     rd_details = extract_details i\<rparr>)
            (filter (\<lambda>i. \<not> href_raises join b (a_attrs i)) items)"
  by (induction items arbitrary: acc) (simp_all add: result_items_step)

lemma service_cards_loop_acc:
  "service_cards_loop join b cards acc =
     acc @ map (\<lambda>c. \<lparr>sd_title = text_or_na (h3_card_title c),
                     sd_description = text_or_na (p_card_text c),
                     sd_url = href_url join b (card_a_attrs c),
                     sd_timestamp = text_or_na (span_date c)\<rparr>)
            (filter (\<lambda>c. \<not> href_raises join b (card_a_attrs c)) cards)"
  by (induction cards arbitrary: acc) (simp_all add: service_cards_step)

text \<open>
  An instance with both ways of raising: the second element has an \<^verbatim>\<open>href\<close> on which \<^verbatim>\<open>urljoin\<close>
  raises, the third a link without \<^verbatim>\<open>href\<close>; the first element alone gives a record.
\<close>

lemma raising_elements_skipped:
  "result_items_loop
     (\<lambda>b h. if h = ''http://['' then Inl (ValueError ''Invalid IPv6 URL'') else Inr (b @ h))
     ''https://leakix.net''
     [\<lparr>h4_result_title = Some ''A'', div_result_description = Some ''first'',
       a_attrs = Some [(''href'', ''/a'')], detail_items = []\<rparr>,
      \<lparr>h4_result_title = Some ''B'', div_result_description = Some ''second'',
       a_attrs = Some [(''href'', ''http://['')], detail_items = []\<rparr>,
      \<lparr>h4_result_title = Some ''C'', div_result_description = Some ''third'',
       a_attrs = Some [(''class'', ''link'')], detail_items = []\<rparr>] []
   = [\<lparr>rd_title = ''A'', rd_description = ''first'',
       rd_url = Some ''https://leakix.net/a'', rd_details = []\<rparr>]"
  by (simp add: result_data_of_def joined_href_def getitem_def text_or_na_def strip_def
      isspace_def extract_details_def)

text \<open>
  C1 (as stated, refuted). No field is an identifying one in the code: every field has its
  placeholder. A payload of 3 search results whose second element has no title, no
  description, no link and no detail item yields 3 records, the second one made of
  placeholders.
\<close>

theorem missing_fields_counterexample:
  "result_items_loop (\<lambda>b h. Inr (b @ h)) ''https://leakix.net''
     [\<lparr>h4_result_title = Some ''A'', div_result_description = Some ''first'',
       a_attrs = Some [(''href'', ''/a'')], detail_items = []\<rparr>,
      \<lparr>h4_result_title = None, div_result_description = None,
       a_attrs = None, detail_items = []\<rparr>,
      \<lparr>h4_result_title = Some ''C'', div_result_description = Some ''third'',
       a_attrs = Some [(''href'', ''/c'')], detail_items = []\<rparr>] []
   = [\<lparr>rd_title = ''A'', rd_description = ''first'',
       rd_url = Some ''https://leakix.net/a'', rd_details = []\<rparr>,
      \<lparr>rd_title = ''N/A'', rd_description = ''N/A'', rd_url = None, rd_details = []\<rparr>,
      \<lparr>rd_title = ''C'', rd_description = ''third'',
       rd_url = Some ''https://leakix.net/c'', rd_details = []\<rparr>]"
  by (simp add: result_data_of_def joined_href_def getitem_def text_or_na_def strip_def
      isspace_def extract_details_def)

text \<open>
  C1 (amended). The records emitted for a payload are, in order, one for each element but
  those on which building the record raises: the link has no \<^verbatim>\<open>href\<close> attribute, or
  \<^verbatim>\<open>urljoin\<close> raises on its \<^verbatim>\<open>href\<close> (the loop catches the exception and goes on). A
  missing title, description or date is \<^verbatim>\<open>"N/A"\<close>, a missing link is \<^verbatim>\<open>None\<close>. So for the
  search results, so for the homepage cards, whatever \<^verbatim>\<open>urljoin\<close> does.
\<close>

theorem extraction_placeholders:
  "result_items_loop join b items [] =
     map (\<lambda>i. \<lparr>rd_title = text_or_na (h4_result_title i),
               rd_description = text_or_na (div_result_description i),
               rd_url = href_url join b (a_attrs i),
               rd_details = extract_details i\<rparr>)
       (filter (\<lambda>i. \<not> href_raises join b (a_attrs i)) items)
   \<and> service_cards_loop join b cards [] =
     map (\<lambda>c. \<lparr>sd_title = text_or_na (h3_card_title c),
               sd_description = text_or_na (p_card_text c),
               sd_url = href_url join b (card_a_attrs c),
               sd_timestamp = text_or_na (span_date c)\<rparr>)
       (filter (\<lambda>c. \<not> href_raises join b (card_a_attrs c)) cards)"
  by (simp add: result_items_loop_acc service_cards_loop_acc)

section \<open>Properties: the details dictionary\<close>

lemma split_last_Cons:
  "(\<exists>pre x post. y # ys = pre @ x # post \<and> Q x \<and> (\<forall>z \<in> set post. \<not> P z)) \<longleftrightarrow>
   (Q y \<and> (\<forall>z \<in> set ys. \<not> P z))
   \<or> (\<exists>pre x post. ys = pre @ x # post \<and> Q x \<and> (\<forall>z \<in> set post. \<not> P z))"
  (is "?L \<longleftrightarrow> ?A \<or> ?B")
proof
  assume ?L
  then obtain pre x post where s: "y # ys = pre @ x # post" "Q x" "\<forall>z \<in> set post. \<not> P z"
    by blast
  show "?A \<or> ?B"
  proof (cases pre)
    case Nil
    with s show ?thesis by simp
  next
    case (Cons p pre')
    with s have "ys = pre' @ x # post" by simp
    with s show ?thesis by blast
  qed
next
  assume "?A \<or> ?B"
  then show ?L
  proof
    assume ?A
    then have "y # ys = [] @ y # ys \<and> Q y \<and> (\<forall>z \<in> set ys. \<not> P z)" by simp
    then show ?L by blast
  next
    assume ?B
    then obtain pre x post where "ys = pre @ x # post" "Q x" "\<forall>z \<in> set post. \<not> P z"
      by blast
    then have "y # ys = (y # pre) @ x # post \<and> Q x \<and> (\<forall>z \<in> set post. \<not> P z)" by simp
    then show ?L by blast
  qed
qed

lemma detail_step_lookup:
  "map_of (case (key_elem d, value_elem d) of
             (Some k, Some v) \<Rightarrow> AList.update (strip k) (strip v) details
           | _ \<Rightarrow> details) k = Some v \<longleftrightarrow>
    sets_entry k v d \<or> (\<not> sets_key k d \<and> map_of details k = Some v)"
  by (auto simp: update_conv sets_entry_def sets_key_def split: option.splits)

lemma extract_details_loop_lookup:
  "map_of (extract_details_loop ds acc) k = Some v \<longleftrightarrow>
     (\<exists>pre d post. ds = pre @ d # post \<and> sets_entry k v d
        \<and> (\<forall>d' \<in> set post. \<not> sets_key k d'))
     \<or> (map_of acc k = Some v \<and> (\<forall>d' \<in> set ds. \<not> sets_key k d'))"
proof (induction ds arbitrary: acc)
  case Nil
  then show ?case by simp
next
  case (Cons d ds)
  have "map_of (extract_details_loop (d # ds) acc) k = Some v \<longleftrightarrow>
     (\<exists>pre x post. ds = pre @ x # post \<and> sets_entry k v x
        \<and> (\<forall>d' \<in> set post. \<not> sets_key k d'))
     \<or> ((sets_entry k v d \<or> (\<not> sets_key k d \<and> map_of acc k = Some v))
          \<and> (\<forall>d' \<in> set ds. \<not> sets_key k d'))"
    by (simp only: extract_details_loop.simps Cons.IH detail_step_lookup)
  also have "\<dots> \<longleftrightarrow>
     (\<exists>pre x post. d # ds = pre @ x # post \<and> sets_entry k v x
        \<and> (\<forall>d' \<in> set post. \<not> sets_key k d'))
     \<or> (map_of acc k = Some v \<and> (\<forall>d' \<in> set (d # ds). \<not> sets_key k d'))"
    unfolding split_last_Cons [of d ds "sets_entry k v" "sets_key k"] by auto
  finally show ?case .
qed

lemma extract_details_loop_distinct:
  "distinct (map fst acc) \<Longrightarrow> distinct (map fst (extract_details_loop ds acc))"
  by (induction ds arbitrary: acc) (auto simp: distinct_update split: option.splits)

text \<open>
  C10 (as stated, refuted). Two detail items with the same key, each with its key element
  and its value element: the dictionary holds the pair of the second one only, so the first
  item has both elements and its pair is not in the dictionary.
\<close>

theorem extract_details_same_key_counterexample:
  "extract_details
     \<lparr>h4_result_title = None, div_result_description = None, a_attrs = None,
      detail_items = [\<lparr>key_elem = Some ''port'', value_elem = Some ''80''\<rparr>,
                      \<lparr>key_elem = Some ''port'', value_elem = Some ''443''\<rparr>]\<rparr>
   = [(''port'', ''443'')]"
  by (simp add: extract_details_def strip_def isspace_def)

text \<open>
  C10 (amended). The dictionary has one entry per key, and it contains the pair \<open>(k, v)\<close>
  if and only if some detail item has both its key element and its value element, with
  texts that strip to \<open>k\<close> and \<open>v\<close>, and no later detail item with both elements has a key
  that strips to \<open>k\<close>. An item missing either element adds nothing, and the function returns
  a dictionary on every input.
\<close>

theorem extract_details_entries:
  "distinct (map fst (extract_details element))
   \<and> ((k, v) \<in> set (extract_details element) \<longleftrightarrow>
        (\<exists>pre d post. detail_items element = pre @ d # post \<and> sets_entry k v d
           \<and> (\<forall>d' \<in> set post. \<not> sets_key k d')))"
proof -
  have d: "distinct (map fst (extract_details element))"
    by (simp add: extract_details_def extract_details_loop_distinct)
  have "(k, v) \<in> set (extract_details element)
        \<longleftrightarrow> map_of (extract_details element) k = Some v"
    using d by simp
  with d show ?thesis
    by (simp add: extract_details_def extract_details_loop_lookup)
qed

theorem extract_details_entries_witness:
  "(''port'', ''443'') \<in> set (extract_details
     \<lparr>h4_result_title = None, div_result_description = None, a_attrs = None,
      detail_items = [\<lparr>key_elem = Some ''port'', value_elem = Some ''80''\<rparr>,
                      \<lparr>key_elem = Some (CHR 0xA0 # ''port''), value_elem = Some ''443 ''\<rparr>,
                      \<lparr>key_elem = Some ''host'', value_elem = None\<rparr>]\<rparr>)"
proof -
  let ?d1 = "\<lparr>key_elem = Some ''port'', value_elem = Some ''80''\<rparr>"
  let ?d2 = "\<lparr>key_elem = Some (CHR 0xA0 # ''port''), value_elem = Some ''443 ''\<rparr>"
  let ?d3 = "\<lparr>key_elem = Some ''host'', value_elem = None\<rparr>"
  let ?e = "\<lparr>h4_result_title = None, div_result_description = None, a_attrs = None,
             detail_items = [?d1, ?d2, ?d3]\<rparr>"
  have "detail_items ?e = [?d1] @ ?d2 # [?d3] \<and> sets_entry ''port'' ''443'' ?d2
        \<and> (\<forall>d' \<in> set [?d3]. \<not> sets_key ''port'' d')"
    by (simp add: sets_entry_def sets_key_def strip_def isspace_def)
  then have "\<exists>pre d post. detail_items ?e = pre @ d # post \<and> sets_entry ''port'' ''443'' d
        \<and> (\<forall>d' \<in> set post. \<not> sets_key ''port'' d')"
    by blast
  then show ?thesis
    using extract_details_entries [of ?e "''port''" "''443''"] by blast
qed

section \<open>Properties: get\_page\<close>

lemma attempts_of_3: "[0..<nat 3] = [0, 1, 2]"
  by (simp add: upt_rec)

lemma get_page_third_attempt:
  assumes f0: "page_of (net w (requests s) (urljoin w base_url url)) = None"
    and f1: "page_of (net w (requests s + 1) (urljoin w base_url url)) = None"
    and ok: "net w (requests s + 2) (urljoin w base_url url) = Response 200 body"
  shows "get_page w base_url url 3 s =
     (Some body,
      s\<lparr>requests := requests s + 3, draws := draws s + 2,
        log := log s @
          [Fetch (urljoin w base_url url) 0,
           Sleep (backoff_sleep_time 0 (rnd w (draws s))),
           Fetch (urljoin w base_url url) 1,
           Sleep (backoff_sleep_time 1 (rnd w (draws s + 1))),
           Fetch (urljoin w base_url url) 2]\<rparr>)"
proof -
  have p2: "page_of (net w (requests s + 2) (urljoin w base_url url)) = Some body"
    using ok by (simp add: page_of_def)
  show ?thesis
    unfolding get_page_def attempts_of_3
    using f0 f1 p2 by (simp add: request_sent_def backoff_sleep_def)
qed

text \<open>
  C6. \<^verbatim>\<open>get_page\<close> with its 3 attempts, the first two failing (an exception or a status
  other than 200) and the third answered with status 200: the page is returned, after
  three requests and exactly two sleeps, of \<open>2 ^ 0\<close> and \<open>2 ^ 1\<close> seconds plus jitter, one
  after each failed attempt. A one-page search run on such a fetch returns the records of
  that page.
\<close>

theorem two_failures_then_success:
  assumes "page_of (net w (requests s) (urljoin w base_url (search_url query 1))) = None"
    and "page_of (net w (requests s + 1) (urljoin w base_url (search_url query 1))) = None"
    and "net w (requests s + 2) (urljoin w base_url (search_url query 1)) = Response 200 body"
  shows "get_page w base_url (search_url query 1) 3 s =
     (Some body,
      s\<lparr>requests := requests s + 3, draws := draws s + 2,
        log := log s @
          [Fetch (urljoin w base_url (search_url query 1)) 0,
           Sleep (backoff_sleep_time 0 (rnd w (draws s))),
           Fetch (urljoin w base_url (search_url query 1)) 1,
           Sleep (backoff_sleep_time 1 (rnd w (draws s + 1))),
           Fetch (urljoin w base_url (search_url query 1)) 2]\<rparr>)
   \<and> fst (scrape_search_results w base_url query 1 s) =
       result_items_loop (py_urljoin w) base_url (div_search_result body) []"
  using get_page_third_attempt [OF assms]
  by (simp add: scrape_search_results_def upto.simps)

section \<open>Properties: the events of a fetch\<close>

lemma polite_after_append:
  "polite_after p (xs @ ys) =
     (polite_after p xs \<and> polite_after (if xs = [] then p else Some (last xs)) ys)"
proof (induction xs arbitrary: p)
  case Nil
  then show ?case by simp
next
  case (Cons e xs)
  then show ?case by (cases e) auto
qed

lemma polite_after_rejects_skipped_delay:
  "\<not> polite_after None [Fetch u 0, Fetch v 0]
   \<and> \<not> polite_after None [Fetch u 0, Sleep 1, Fetch v 0]"
  by (simp add: is_politeness_def)

lemma attempt_log_step:
  "\<exists>mid. log (if int a < rc - 1 then backoff_sleep w a (request_sent u a s)
               else request_sent u a s) = log s @ Fetch u a # mid
         \<and> (mid = [] \<or> (\<exists>d. mid = [Sleep d]))"
  by (simp add: request_sent_def backoff_sleep_def)

lemma get_page_loop_retries_log:
  "0 \<notin> set atts \<Longrightarrow>
     \<exists>evs. log (snd (get_page_loop w u rc atts s)) = log s @ evs \<and> (\<forall>p. polite_after p evs)"
proof (induction atts arbitrary: s)
  case Nil
  then show ?case by simp
next
  case (Cons a rest)
  then have a: "a \<noteq> 0" and r: "0 \<notin> set rest" by auto
  show ?case
  proof (cases "page_of (net w (requests s) u)")
    case (Some body)
    then have "log (snd (get_page_loop w u rc (a # rest) s)) = log s @ [Fetch u a]"
      by (simp add: request_sent_def)
    moreover have "\<forall>p. polite_after p [Fetch u a]" using a by simp
    ultimately show ?thesis by blast
  next
    case None
    let ?s1 = "if int a < rc - 1 then backoff_sleep w a (request_sent u a s)
               else request_sent u a s"
    from Cons.IH [OF r, of ?s1] obtain evs where
      e: "log (snd (get_page_loop w u rc rest ?s1)) = log ?s1 @ evs" "\<forall>p. polite_after p evs"
      by blast
    from attempt_log_step [of a rc w u s]
    obtain mid where m: "log ?s1 = log s @ Fetch u a # mid"
      "mid = [] \<or> (\<exists>d. mid = [Sleep d])"
      by blast
    have "log (snd (get_page_loop w u rc (a # rest) s)) = log s @ (Fetch u a # mid @ evs)"
      using None e m by simp
    moreover have "\<forall>p. polite_after p (Fetch u a # mid @ evs)"
      using a e(2) m(2) by auto
    ultimately show ?thesis by blast
  qed
qed

lemma get_page_log:
  "\<exists>evs. log (snd (get_page w b url 3 s)) = log s @ Fetch (urljoin w b url) 0 # evs
         \<and> (\<forall>p. polite_after p evs)"
proof -
  let ?u = "urljoin w b url"
  show ?thesis
  proof (cases "page_of (net w (requests s) ?u)")
    case (Some body)
    then have "log (snd (get_page w b url 3 s)) = log s @ Fetch ?u 0 # []"
      unfolding get_page_def attempts_of_3 by (simp add: request_sent_def)
    moreover have "\<forall>p. polite_after p []" by simp
    ultimately show ?thesis by blast
  next
    case None
    let ?s1 = "backoff_sleep w 0 (request_sent ?u 0 s)"
    have "0 \<notin> set [1, 2::nat]" by simp
    from get_page_loop_retries_log [OF this, of w ?u 3 ?s1] obtain evs where
      e: "log (snd (get_page_loop w ?u 3 [1, 2] ?s1)) = log ?s1 @ evs" "\<forall>p. polite_after p evs"
      by blast
    have "log (snd (get_page w b url 3 s)) = log s @ Fetch ?u 0 #
            (Sleep (backoff_sleep_time 0 (rnd w (draws s))) # evs)"
      unfolding get_page_def attempts_of_3 using None e(1)
      by (simp add: request_sent_def backoff_sleep_def)
    moreover have "\<forall>p. polite_after p (Sleep (backoff_sleep_time 0 (rnd w (draws s))) # evs)"
      using e(2) by simp
    ultimately show ?thesis by blast
  qed
qed

lemma get_page_loop_fetches:
  "\<exists>evs. log (snd (get_page_loop w u rc atts s)) = log s @ evs
         \<and> (\<forall>u' a. Fetch u' a \<in> set evs \<longrightarrow> u' = u)"
proof (induction atts arbitrary: s)
  case Nil
  then show ?case by simp
next
  case (Cons a rest)
  show ?case
  proof (cases "page_of (net w (requests s) u)")
    case (Some body)
    then have "log (snd (get_page_loop w u rc (a # rest) s)) = log s @ [Fetch u a]"
      by (simp add: request_sent_def)
    then show ?thesis by auto
  next
    case None
    let ?s1 = "if int a < rc - 1 then backoff_sleep w a (request_sent u a s)
               else request_sent u a s"
    from Cons.IH [of ?s1] obtain evs where
      e: "log (snd (get_page_loop w u rc rest ?s1)) = log ?s1 @ evs"
         "\<forall>u' a. Fetch u' a \<in> set evs \<longrightarrow> u' = u"
      by blast
    from attempt_log_step [of a rc w u s]
    obtain mid where m: "log ?s1 = log s @ Fetch u a # mid"
      "mid = [] \<or> (\<exists>d. mid = [Sleep d])"
      by blast
    have "log (snd (get_page_loop w u rc (a # rest) s)) = log s @ (Fetch u a # mid @ evs)"
      using None e m by simp
    moreover have "\<forall>u' a'. Fetch u' a' \<in> set (Fetch u a # mid @ evs) \<longrightarrow> u' = u"
      using e(2) m(2) by auto
    ultimately show ?thesis by blast
  qed
qed

lemma get_page_fetches:
  "\<exists>evs. log (snd (get_page w b url rc s)) = log s @ evs
         \<and> (\<forall>u a. Fetch u a \<in> set evs \<longrightarrow> u = urljoin w b url)"
  unfolding get_page_def by (rule get_page_loop_fetches)

section \<open>Properties: pagination\<close>

lemma pages_from_1:
  assumes "3 \<le> pages"
  shows "[1..pages] = 1 # 2 # [3..pages]"
proof -
  have "[1..pages] = 1 # [2..pages]" using assms by (simp add: upto_rec1)
  also have "[2..pages] = 2 # [3..pages]" using assms by (simp add: upto_rec1)
  finally show ?thesis .
qed

lemma two_pages_fetches:
  assumes g1: "get_page w base_url (search_url query 1) 3 s = (Some soup1, s1)"
    and g2: "get_page w base_url (search_url query 2) 3 (politeness_sleep w s1) = (Some soup2, s2)"
  shows "\<exists>evs. log s2 = log s @ evs \<and>
     (\<forall>u a. Fetch u a \<in> set evs \<longrightarrow>
        u = urljoin w base_url (search_url query 1) \<or> u = urljoin w base_url (search_url query 2))"
proof -
  from get_page_fetches [of w base_url "search_url query 1" 3 s] g1
  obtain e1 where e1: "log s1 = log s @ e1"
    "\<forall>u a. Fetch u a \<in> set e1 \<longrightarrow> u = urljoin w base_url (search_url query 1)"
    by auto
  from get_page_fetches [of w base_url "search_url query 2" 3 "politeness_sleep w s1"] g2
  obtain e2 where e2: "log s2 = log (politeness_sleep w s1) @ e2"
    "\<forall>u a. Fetch u a \<in> set e2 \<longrightarrow> u = urljoin w base_url (search_url query 2)"
    by auto
  have "log s2 = log s @ (e1 @ Sleep (uniform 2 5 (rnd w (draws s1))) # e2)"
    using e1(1) e2(1) by (simp add: politeness_sleep_def)
  moreover have "\<forall>u a. Fetch u a \<in> set (e1 @ Sleep (uniform 2 5 (rnd w (draws s1))) # e2) \<longrightarrow>
        u = urljoin w base_url (search_url query 1) \<or> u = urljoin w base_url (search_url query 2)"
    using e1(2) e2(2) by auto
  ultimately show ?thesis by blast
qed

text \<open>
  C5. A run over \<open>pages \<ge> 3\<close> pages in which page 1 comes back with results and page 2 comes
  back with none: the run returns the records of page 1 and ends in the state in which the
  fetch of page 2 returned, so nothing is requested after it; every request of the run is
  for the URL of page 1 or of page 2.
\<close>

theorem empty_page_ends_run:
  assumes "3 \<le> pages"
    and "get_page w base_url (search_url query 1) 3 s = (Some soup1, s1)"
    and "div_search_result soup1 \<noteq> []"
    and "get_page w base_url (search_url query 2) 3 (politeness_sleep w s1) = (Some soup2, s2)"
    and "div_search_result soup2 = []"
  shows "scrape_search_results w base_url query pages s =
           (result_items_loop (py_urljoin w) base_url (div_search_result soup1) [], s2)
   \<and> (\<exists>evs. log s2 = log s @ evs \<and>
        (\<forall>u a. Fetch u a \<in> set evs \<longrightarrow>
           u = urljoin w base_url (search_url query 1)
           \<or> u = urljoin w base_url (search_url query 2)))"
proof -
  have "scrape_search_results w base_url query pages s =
           (result_items_loop (py_urljoin w) base_url (div_search_result soup1) [], s2)"
    unfolding scrape_search_results_def pages_from_1 [OF assms(1)]
    using assms by simp
  with two_pages_fetches [OF assms(2) assms(4)] show ?thesis by blast
qed

section \<open>Properties: the politeness delay\<close>

lemma get_page_polite:
  assumes "loop_head s"
  shows "polite_after None (log (snd (get_page w b url 3 s)))"
proof -
  obtain evs where e: "log (snd (get_page w b url 3 s)) = log s @ Fetch (urljoin w b url) 0 # evs"
    "\<forall>p. polite_after p evs"
    using get_page_log by blast
  show ?thesis
    using assms e by (auto simp: loop_head_def polite_after_append)
qed

lemma politeness_sleep_head:
  assumes "polite_after None (log s)" and "0 \<le> rnd w (draws s)" and "rnd w (draws s) \<le> 1"
  shows "loop_head (politeness_sleep w s)"
proof -
  have "2 \<le> uniform 2 5 (rnd w (draws s)) \<and> uniform 2 5 (rnd w (draws s)) \<le> 5"
    using assms(2,3) by (rule uniform_2_5_bounds)
  then show ?thesis
    using assms(1)
    by (simp add: loop_head_def politeness_sleep_def polite_after_append is_politeness_def)
qed

lemma politeness_sleep_polite:
  "polite_after None (log s) \<Longrightarrow> polite_after None (log (politeness_sleep w s))"
  by (simp add: politeness_sleep_def polite_after_append)

lemma pages_loop_polite:
  assumes rnd: "\<forall>n. 0 \<le> rnd w n \<and> rnd w n \<le> 1"
  shows "loop_head s \<Longrightarrow> \<forall>p \<in> set (butlast ps). p < pages \<Longrightarrow>
         polite_after None (log (snd (pages_loop w b q pages ps acc s)))"
proof (induction ps arbitrary: acc s)
  case Nil
  then show ?case by (simp add: loop_head_def)
next
  case (Cons page rest)
  obtain r s1 where g: "get_page w b (search_url q page) 3 s = (r, s1)"
    by (cases "get_page w b (search_url q page) 3 s")
  have p1: "polite_after None (log s1)"
    using get_page_polite [OF Cons.prems(1), of w b "search_url q page"] g by simp
  show ?case
  proof (cases r)
    case None
    with g p1 show ?thesis by simp
  next
    case (Some soup)
    show ?thesis
    proof (cases "div_search_result soup = []")
      case True
      with g p1 Some show ?thesis by simp
    next
      case False
      show ?thesis
      proof (cases "rest = []")
        case True
        with g p1 Some False show ?thesis
          by (simp add: politeness_sleep_polite)
      next
        case nonempty: False
        with Cons.prems(2) have lt: "page < pages"
          and rest: "\<forall>p \<in> set (butlast rest). p < pages"
          by auto
        have "loop_head (politeness_sleep w s1)"
          using politeness_sleep_head [OF p1] rnd by blast
        from Cons.IH [OF this rest] g Some False lt show ?thesis by simp
      qed
    qed
  qed
qed

lemma butlast_pages: "\<forall>p \<in> set (butlast [1..pages]). p < pages"
proof (cases "1 \<le> pages")
  case True
  then have "[1..pages] = [1..pages - 1] @ [pages]"
    by (simp add: upto_rec2)
  then show ?thesis by simp
next
  case False
  then show ?thesis by simp
qed

text \<open>
  C7. With \<^verbatim>\<open>random.random()\<close> in \<open>[0, 1)\<close>, the log of a search run started on an empty log
  is polite: every first attempt at a page after the first event of the run comes right
  after a sleep of 2 to 5 seconds. No page is fetched without that delay, whatever the
  page before it gave.
\<close>

theorem politeness_delay_before_each_page:
  assumes "\<forall>n. 0 \<le> rnd w n \<and> rnd w n < 1" and "log s = []"
  shows "polite_after None (log (snd (scrape_search_results w base_url query pages s)))"
proof -
  have "\<forall>n. 0 \<le> rnd w n \<and> rnd w n \<le> 1"
    using assms(1) by (simp add: less_imp_le)
  from pages_loop_polite [OF this _ butlast_pages] assms(2) show ?thesis
    unfolding scrape_search_results_def by (simp add: loop_head_def)
qed

section \<open>Properties: the records do not depend on the jitter\<close>

lemma get_page_loop_rnd:
  "net w1 = net w2 \<Longrightarrow> requests s1 = requests s2 \<Longrightarrow>
     fst (get_page_loop w1 u rc atts s1) = fst (get_page_loop w2 u rc atts s2)
     \<and> requests (snd (get_page_loop w1 u rc atts s1))
       = requests (snd (get_page_loop w2 u rc atts s2))"
proof (induction atts arbitrary: s1 s2)
  case Nil
  then show ?case by simp
next
  case (Cons a rest)
  let ?t1 = "if int a < rc - 1 then backoff_sleep w1 a (request_sent u a s1)
             else request_sent u a s1"
  let ?t2 = "if int a < rc - 1 then backoff_sleep w2 a (request_sent u a s2)
             else request_sent u a s2"
  have "requests ?t1 = requests ?t2"
    using Cons.prems(2) by (simp add: request_sent_def backoff_sleep_def)
  from Cons.IH [OF Cons.prems(1) this] Cons.prems show ?case
    by (cases "page_of (net w2 (requests s2) u)") (simp_all add: request_sent_def)
qed

lemma pages_loop_rnd:
  assumes "urljoin w1 = urljoin w2" and "net w1 = net w2"
    and "urljoin_error w1 = urljoin_error w2"
  shows "requests s1 = requests s2 \<Longrightarrow>
     fst (pages_loop w1 b q pages ps acc s1) = fst (pages_loop w2 b q pages ps acc s2)"
proof (induction ps arbitrary: acc s1 s2)
  case Nil
  then show ?case by simp
next
  case (Cons page rest)
  obtain r1 t1 where g1: "get_page w1 b (search_url q page) 3 s1 = (r1, t1)"
    by (cases "get_page w1 b (search_url q page) 3 s1")
  obtain r2 t2 where g2: "get_page w2 b (search_url q page) 3 s2 = (r2, t2)"
    by (cases "get_page w2 b (search_url q page) 3 s2")
  have join: "py_urljoin w1 = py_urljoin w2"
    unfolding py_urljoin_def assms(1) assms(3) by (rule refl)
  have same: "r1 = r2 \<and> requests t1 = requests t2"
    using get_page_loop_rnd [OF assms(2) Cons.prems,
        of "urljoin w2 b (search_url q page)" 3 "[0..<nat 3]"] g1 g2 assms(1)
    by (simp add: get_page_def)
  show ?case
  proof (cases r2)
    case None
    with g1 g2 same show ?thesis by simp
  next
    case (Some soup)
    have "requests (if page < pages then politeness_sleep w1 t1 else t1)
          = requests (if page < pages then politeness_sleep w2 t2 else t2)"
      using same by (simp add: politeness_sleep_def)
    from Cons.IH [OF this] g1 g2 same Some join show ?thesis by simp
  qed
qed

lemma py_urljoin_rnd: "py_urljoin (w\<lparr>rnd := r\<rparr>) = py_urljoin w"
  by (intro ext) (simp add: py_urljoin_def split: option.splits)

lemma homepage_rnd:
  "fst (scrape_leakix_homepage (w\<lparr>rnd := r1\<rparr>) b s)
   = fst (scrape_leakix_homepage (w\<lparr>rnd := r2\<rparr>) b s)"
proof -
  have "fst (get_page (w\<lparr>rnd := r1\<rparr>) b ''/'' 3 s) = fst (get_page (w\<lparr>rnd := r2\<rparr>) b ''/'' 3 s)"
    using get_page_loop_rnd [of "w\<lparr>rnd := r1\<rparr>" "w\<lparr>rnd := r2\<rparr>" s s]
    by (simp add: get_page_def)
  then show ?thesis
    by (cases "get_page (w\<lparr>rnd := r1\<rparr>) b ''/'' 3 s";
        cases "get_page (w\<lparr>rnd := r2\<rparr>) b ''/'' 3 s")
      (auto simp: scrape_leakix_homepage_def py_urljoin_rnd split: option.splits)
qed

text \<open>
  C8. Two runs of \<^verbatim>\<open>scrape_search_results\<close>, or of \<^verbatim>\<open>scrape_leakix_homepage\<close>, against the
  same answers of the network and with any two sources of random numbers \<open>r1\<close> and \<open>r2\<close>
  return the same list of records: the jitter changes the sleeps only. (\<^verbatim>\<open>search_tweets\<close>
  draws no random number: its result is a function of the client's answers.)
\<close>

theorem records_independent_of_jitter:
  "fst (scrape_search_results (w\<lparr>rnd := r1\<rparr>) base_url query pages s)
     = fst (scrape_search_results (w\<lparr>rnd := r2\<rparr>) base_url query pages s)
   \<and> fst (scrape_leakix_homepage (w\<lparr>rnd := r1\<rparr>) base_url s)
     = fst (scrape_leakix_homepage (w\<lparr>rnd := r2\<rparr>) base_url s)"
proof -
  have "fst (scrape_search_results (w\<lparr>rnd := r1\<rparr>) base_url query pages s)
     = fst (scrape_search_results (w\<lparr>rnd := r2\<rparr>) base_url query pages s)"
    unfolding scrape_search_results_def by (rule pages_loop_rnd) simp_all
  with homepage_rnd show ?thesis by blast
qed

section \<open>Properties: the rate-limit retries\<close>

lemma retried_Suc:
  "retried (Suc k) d req s = retried k (d * 2) req (time_sleep d (called req s))"
proof -
  have "[0..<Suc k] = 0 # map Suc [0..<k]"
    by (simp add: upt_conv_Cons map_Suc_upt del: upt_Suc)
  then have "concat (map (\<lambda>i. [Search req, Wait (d * 2 ^ i)]) [0..<Suc k])
      = [Search req, Wait d] @ concat (map (\<lambda>i. [Search req, Wait (d * 2 * 2 ^ i)]) [0..<k])"
    by (simp add: comp_def mult.assoc del: upt_Suc)
  then show ?thesis
    by (simp add: retried_def time_sleep_def called_def del: upt_Suc)
qed

lemma search_loop_retries:
  "int k + retry_count \<le> max_retries \<Longrightarrow>
   \<forall>i<k. client (calls s + i) req = TooManyRequests \<Longrightarrow>
   search_loop client req retry_count retry_delay tweets s =
   search_loop client req (retry_count + int k) (retry_delay * 2 ^ k) tweets
     (retried k retry_delay req s)"
proof (induction k arbitrary: retry_count retry_delay s)
  case 0
  then show ?case by (simp add: retried_def)
next
  case (Suc k)
  have c0: "client (calls s) req = TooManyRequests"
    using Suc.prems(2) [rule_format, of 0] by simp
  have lt: "retry_count < max_retries" using Suc.prems(1) by simp
  let ?s1 = "time_sleep retry_delay (called req s)"
  have rest: "\<forall>i<k. client (calls ?s1 + i) req = TooManyRequests"
  proof (intro allI impI)
    fix i assume "i < k"
    then have "client (calls s + Suc i) req = TooManyRequests"
      using Suc.prems(2) [rule_format, of "Suc i"] by simp
    then show "client (calls ?s1 + i) req = TooManyRequests"
      by (simp add: time_sleep_def called_def)
  qed
  have "search_loop client req retry_count retry_delay tweets s =
        search_loop client req (retry_count + 1) (retry_delay * 2) tweets ?s1"
    using c0 lt by (subst search_loop.simps) simp
  also have "\<dots> = search_loop client req (retry_count + 1 + int k) (retry_delay * 2 * 2 ^ k)
        tweets (retried k (retry_delay * 2) req ?s1)"
    using Suc.prems(1) by (intro Suc.IH rest) simp
  finally show ?case
    by (simp add: retried_Suc ac_simps)
qed

lemma search_loop_abort:
  assumes "client (calls s) req = TooManyRequests" and "retry_count = max_retries"
  shows "search_loop client req retry_count retry_delay tweets s = Inr (tweets, called req s)"
  using assms by (subst search_loop.simps) simp

lemma search_loop_terminal:
  assumes "client (calls s) req = TweepyException" and "retry_count \<le> max_retries"
  shows "search_loop client req retry_count retry_delay tweets s = Inr (tweets, called req s)"
  using assms by (subst search_loop.simps) simp

lemma six_signals:
  assumes "\<forall>i<6. client (calls s + i) req = TooManyRequests"
  shows "search_loop client req 0 60 tweets s =
    Inr (tweets, s\<lparr>calls := calls s + 6,
       tw_log := tw_log s @ [Search req, Wait 60, Search req, Wait 120, Search req, Wait 240,
         Search req, Wait 480, Search req, Wait 960, Search req]\<rparr>)"
proof -
  have five: "\<forall>i<5. client (calls s + i) req = TooManyRequests"
    using assms by simp
  have "search_loop client req 0 60 tweets s =
        search_loop client req (0 + int 5) (60 * 2 ^ 5) tweets (retried 5 60 req s)"
    by (rule search_loop_retries) (use five in \<open>simp_all add: max_retries_def\<close>)
  also have "\<dots> = Inr (tweets, called req (retried 5 60 req s))"
  proof (rule search_loop_abort)
    show "client (calls (retried 5 60 req s)) req = TooManyRequests"
      using assms by (simp add: retried_def)
    show "0 + int 5 = max_retries" by (simp add: max_retries_def)
  qed
  also have "called req (retried 5 60 req s) = s\<lparr>calls := calls s + 6,
       tw_log := tw_log s @ [Search req, Wait 60, Search req, Wait 120, Search req, Wait 240,
         Search req, Wait 480, Search req, Wait 960, Search req]\<rparr>"
    by (simp add: retried_def called_def upt_rec)
  finally show ?thesis .
qed

text \<open>
  C3. \<^verbatim>\<open>search_tweets\<close>, with its \<^verbatim>\<open>max_retries = 5\<close>. When the first six calls of the run
  raise \<^verbatim>\<open>TooManyRequests\<close>, each of the first five is followed by a wait (of 60, 120, 240,
  480 and 960 seconds) and a new call, and the sixth ends the loop with no further wait:
  six calls, five waits, the call last. When the first \<open>k \<le> 5\<close> calls raise it, the run
  goes on as the loop entered with \<^verbatim>\<open>retry_count = k\<close> after \<open>k\<close> rounds of call and wait,
  which calls the client again.
\<close>

theorem rate_limit_retries:
  assumes "req = \<lparr>req_query = query, req_max_results = min max_results 100,
                  req_start_time = start_time, req_end_time = end_time\<rparr>"
  shows "((\<forall>i<6. client (calls s + i) req = TooManyRequests) \<longrightarrow>
      search_tweets client query max_results start_time end_time s =
        Inr ([], s\<lparr>calls := calls s + 6,
           tw_log := tw_log s @
             [Search req, Wait 60, Search req, Wait 120, Search req, Wait 240,
              Search req, Wait 480, Search req, Wait 960, Search req]\<rparr>))
   \<and> (k \<le> 5 \<and> (\<forall>i<k. client (calls s + i) req = TooManyRequests) \<longrightarrow>
      search_tweets client query max_results start_time end_time s =
        search_loop client req (int k) (60 * 2 ^ k) [] (retried k 60 req s)
      \<and> int k \<le> max_retries)"
proof (intro conjI impI)
  assume "\<forall>i<6. client (calls s + i) req = TooManyRequests"
  then show "search_tweets client query max_results start_time end_time s =
        Inr ([], s\<lparr>calls := calls s + 6,
           tw_log := tw_log s @
             [Search req, Wait 60, Search req, Wait 120, Search req, Wait 240,
              Search req, Wait 480, Search req, Wait 960, Search req]\<rparr>)"
    unfolding search_tweets_def assms [symmetric] by (rule six_signals)
next
  assume a: "k \<le> 5 \<and> (\<forall>i<k. client (calls s + i) req = TooManyRequests)"
  then have "int k + 0 \<le> max_retries" by (simp add: max_retries_def)
  from search_loop_retries [OF this, of client s req 60 "[]"] a
  show "search_tweets client query max_results start_time end_time s =
        search_loop client req (int k) (60 * 2 ^ k) [] (retried k 60 req s)"
    unfolding search_tweets_def assms [symmetric] by simp
next
  assume "k \<le> 5 \<and> (\<forall>i<k. client (calls s + i) req = TooManyRequests)"
  then show "int k \<le> max_retries" by (simp add: max_retries_def)
qed

theorem rate_limit_retries_witness:
  "search_tweets (\<lambda>n r. TooManyRequests) ''leak'' 250 None None tw_io0 =
     Inr ([], \<lparr>calls = 6,
        tw_log = [Search example_request, Wait 60, Search example_request, Wait 120,
                  Search example_request, Wait 240, Search example_request, Wait 480,
                  Search example_request, Wait 960, Search example_request]\<rparr>)
   \<and> search_tweets (\<lambda>n r. if n < 2 then TooManyRequests else TweepyException)
       ''leak'' 250 None None tw_io0 =
     Inr ([], \<lparr>calls = 3,
        tw_log = [Search example_request, Wait 60, Search example_request, Wait 120,
                  Search example_request]\<rparr>)"
proof -
  have req: "example_request = \<lparr>req_query = ''leak'', req_max_results = min 250 100,
                  req_start_time = None, req_end_time = None\<rparr>"
    by (simp add: example_request_def)
  let ?c = "\<lambda>(n::nat) (r::search_request). if n < 2 then TooManyRequests else TweepyException"
  have six: "\<forall>i<6. (\<lambda>(n::nat) (r::search_request). TooManyRequests) (calls tw_io0 + i)
               example_request = TooManyRequests"
    by simp
  have two: "(2::nat) \<le> 5 \<and> (\<forall>i<2. ?c (calls tw_io0 + i) example_request = TooManyRequests)"
    by (simp add: tw_io0_def)
  have a: "search_tweets (\<lambda>n r. TooManyRequests) ''leak'' 250 None None tw_io0 =
     Inr ([], \<lparr>calls = 6,
        tw_log = [Search example_request, Wait 60, Search example_request, Wait 120,
                  Search example_request, Wait 240, Search example_request, Wait 480,
                  Search example_request, Wait 960, Search example_request]\<rparr>)"
    using rate_limit_retries [OF req, of "\<lambda>n r. TooManyRequests" tw_io0 0] six
    by (simp add: tw_io0_def)
  have "search_tweets ?c ''leak'' 250 None None tw_io0 =
        search_loop ?c example_request (int 2) (60 * 2 ^ 2) [] (retried 2 60 example_request tw_io0)"
    using rate_limit_retries [OF req, of ?c tw_io0 2] two by blast
  also have "\<dots> = Inr ([], called example_request (retried 2 60 example_request tw_io0))"
    by (rule search_loop_terminal) (simp_all add: retried_def tw_io0_def max_retries_def)
  also have "called example_request (retried 2 60 example_request tw_io0) =
     \<lparr>calls = 3,
        tw_log = [Search example_request, Wait 60, Search example_request, Wait 120,
                  Search example_request]\<rparr>"
    by (simp add: retried_def called_def tw_io0_def upt_rec)
  finally show ?thesis using a by simp
qed

section \<open>Properties: what a failed run returns\<close>





section \<open>Example runs\<close>

lemma example_world_simps:
  "urljoin (example_world f) = (\<lambda>b u. b @ u)" "net (example_world f) = f"
  "rnd (example_world f) = (\<lambda>n. 1 / 4)"
  "py_urljoin (example_world f) = (\<lambda>b u. Inr (b @ u))"
  by (simp_all add: example_world_def py_urljoin_def fun_eq_iff)

lemma example_record_of:
  "result_data_of (\<lambda>b u. Inr (b @ u)) ''https://leakix.net'' example_item = Inr example_record"
  by (simp add: example_item_def example_record_def result_data_of_def joined_href_def
      getitem_def text_or_na_def strip_def isspace_def extract_details_def)

lemma search_url_1: "search_url ''mongo'' 1 = ''/search?q=mongo&page=1''"
  by code_simp

lemma search_url_2: "search_url ''mongo'' 2 = ''/search?q=mongo&page=2''"
  by code_simp

lemma first_page:
  "get_page (example_world (\<lambda>n u. if n = 0 then Response 200 example_page else other n u))
     ''https://leakix.net'' (search_url ''mongo'' 1) 3 io0 =
   (Some example_page,
    \<lparr>requests = 1, draws = 0, log = [Fetch ''https://leakix.net/search?q=mongo&page=1'' 0]\<rparr>)"
  unfolding get_page_def attempts_of_3
  by (simp add: example_world_simps io0_def page_of_def search_url_1 request_sent_def)

lemma second_page_empty:
  "get_page (example_world (\<lambda>n u. if n = 0 then Response 200 example_page
                                   else Response 200 empty_page))
     ''https://leakix.net'' (search_url ''mongo'' 2) 3
     (politeness_sleep (example_world (\<lambda>n u. if n = 0 then Response 200 example_page
                                   else Response 200 empty_page))
        \<lparr>requests = 1, draws = 0,
         log = [Fetch ''https://leakix.net/search?q=mongo&page=1'' 0]\<rparr>) =
   (Some empty_page,
    \<lparr>requests = 2, draws = 1,
     log = [Fetch ''https://leakix.net/search?q=mongo&page=1'' 0, Sleep (11 / 4),
            Fetch ''https://leakix.net/search?q=mongo&page=2'' 0]\<rparr>)"
  unfolding get_page_def attempts_of_3
  by (simp add: example_world_simps page_of_def search_url_2 request_sent_def
      politeness_sleep_def uniform_quarter)


lemma example_run:
  "scrape_search_results
     (example_world (\<lambda>n u. if n = 0 then Response 200 example_page else Response 200 empty_page))
     ''https://leakix.net'' ''mongo'' 3 io0 =
   ([example_record],
    \<lparr>requests = 2, draws = 1,
     log = [Fetch ''https://leakix.net/search?q=mongo&page=1'' 0, Sleep (11 / 4),
            Fetch ''https://leakix.net/search?q=mongo&page=2'' 0]\<rparr>)"
proof -
  have "[1..3] = 1 # 2 # [3..3]" by (rule pages_from_1) simp
  with first_page [of "\<lambda>n u. Response 200 empty_page"] second_page_empty show ?thesis
    unfolding scrape_search_results_def
    by (simp add: example_page_def empty_page_def example_world_simps example_record_of)
qed

text \<open>
  C6, an instance: the first request answered with status 503, the second raising, the
  third answered with the page.
\<close>

theorem two_failures_then_success_witness:
  "get_page (example_world (\<lambda>n u. if n = 0 then Response 503 empty_page
                                   else if n = 1 then RequestException
                                   else Response 200 example_page))
     ''https://leakix.net'' (search_url ''mongo'' 1) 3 io0 =
     (Some example_page,
      \<lparr>requests = 3, draws = 2,
       log = [Fetch ''https://leakix.net/search?q=mongo&page=1'' 0, Sleep (5 / 4),
              Fetch ''https://leakix.net/search?q=mongo&page=1'' 1, Sleep (9 / 4),
              Fetch ''https://leakix.net/search?q=mongo&page=1'' 2]\<rparr>)
   \<and> fst (scrape_search_results
            (example_world (\<lambda>n u. if n = 0 then Response 503 empty_page
                                   else if n = 1 then RequestException
                                   else Response 200 example_page))
            ''https://leakix.net'' ''mongo'' 1 io0) = [example_record]"
  using two_failures_then_success
    [of "example_world (\<lambda>n u. if n = 0 then Response 503 empty_page
                              else if n = 1 then RequestException
                              else Response 200 example_page)"
      io0 "''https://leakix.net''" "''mongo''" example_page]
  by (simp add: example_world_simps io0_def page_of_def search_url_1
      backoff_sleep_time_quarter example_page_def example_record_of)

text \<open>C5, an instance: three pages asked, the first with one result, the second empty.\<close>

theorem empty_page_ends_run_witness:
  "scrape_search_results
     (example_world (\<lambda>n u. if n = 0 then Response 200 example_page else Response 200 empty_page))
     ''https://leakix.net'' ''mongo'' 3 io0 =
   ([example_record],
    \<lparr>requests = 2, draws = 1,
     log = [Fetch ''https://leakix.net/search?q=mongo&page=1'' 0, Sleep (11 / 4),
            Fetch ''https://leakix.net/search?q=mongo&page=2'' 0]\<rparr>)"
proof -
  have "(3::int) \<le> 3" by simp
  from empty_page_ends_run [OF this first_page _ second_page_empty]
  show ?thesis
    by (simp add: example_page_def empty_page_def example_world_simps example_record_of)
qed

text \<open>C7, an instance: the log of that run, with the delay of 2.75 seconds before page 2.\<close>

theorem politeness_delay_before_each_page_witness:
  "polite_after None
     [Fetch ''https://leakix.net/search?q=mongo&page=1'' 0, Sleep (11 / 4),
      Fetch ''https://leakix.net/search?q=mongo&page=2'' 0]"
proof -
  let ?w = "example_world (\<lambda>n u. if n = 0 then Response 200 example_page
                              else Response 200 empty_page)"
  have "\<forall>n. 0 \<le> rnd ?w n \<and> rnd ?w n < 1"
    by (simp add: example_world_simps)
  moreover have "log io0 = []" by (simp add: io0_def)
  ultimately have "polite_after None
     (log (snd (scrape_search_results ?w ''https://leakix.net'' ''mongo'' 3 io0)))"
    by (rule politeness_delay_before_each_page)
  then show ?thesis by (simp only: example_run snd_conv io.simps)
qed


end
